theory Spec2Isabelle
  imports Complex_Main "HOL-Library.Sublist" "HOL-Library.Multiset"
begin


section \<open>The image store of \<^verbatim>\<open>src/lib/storage.ts\<close>\<close>

text \<open>
  The module keeps a process-wide array \<^verbatim>\<open>globalThis.imageStore\<close> of image records and
  mirrors it in a directory tree under \<^verbatim>\<open><cwd>/public/shapes\<close>. The embedding passes the
  array and the directory tree explicitly: every operation takes the working directory,
  the tree and the array, and returns what it changed. An exception of the source is a
  value of type \<open>error\<close>; a function that catches it returns normally.
\<close>

subsection \<open>Records\<close>

text \<open>
  A JavaScript number is a double: a finite one is a rational, and the two infinities stand
  beside them. \<^verbatim>\<open>NaN\<close> is left out: none of the numbers of this module
  (\<^verbatim>\<open>Date.now()\<close>, \<^verbatim>\<open>parseInt\<close> of a run of digits, \<^verbatim>\<open>mtimeMs\<close>) is \<^verbatim>\<open>NaN\<close>. The order is that
  of the numbers, which is also what a comparator \<^verbatim>\<open>(a, b) => b - a\<close> sorts by: the
  difference of two equal infinities is \<^verbatim>\<open>NaN\<close>, which \<^verbatim>\<open>sort\<close> reads as equality.
\<close>

datatype number = Finite rat | Infinity | NegInfinity

instantiation number :: "{uminus, linorder}"
begin

fun uminus_number :: "number \<Rightarrow> number" where
  "uminus_number (Finite x) = Finite (- x)"
| "uminus_number Infinity = NegInfinity"
| "uminus_number NegInfinity = Infinity"

fun less_eq_number :: "number \<Rightarrow> number \<Rightarrow> bool" where
  "less_eq_number NegInfinity y = True"
| "less_eq_number x Infinity = True"
| "less_eq_number (Finite x) (Finite y) = (x \<le> y)"
| "less_eq_number x y = False"

definition less_number :: "number \<Rightarrow> number \<Rightarrow> bool" where
  "less_number x y = (x \<le> y \<and> \<not> y \<le> x)"

instance
proof
  fix x y z :: number
  show "x < y \<longleftrightarrow> x \<le> y \<and> \<not> y \<le> x" by (simp add: less_number_def)
  show "x \<le> x" by (cases x) simp_all
  show "x \<le> y \<Longrightarrow> y \<le> z \<Longrightarrow> x \<le> z" by (cases x; cases y; cases z) simp_all
  show "x \<le> y \<Longrightarrow> y \<le> x \<Longrightarrow> x = y" by (cases x; cases y) simp_all
  show "x \<le> y \<or> y \<le> x" by (cases x; cases y) auto
qed

end

text \<open>
  \<^verbatim>\<open>type ImageData = { filename, label, quality, image, timestamp, filePath }\<close>.
\<close>

record ImageData =
  filename :: string
  label :: string
  quality :: string
  image :: string
  timestamp :: number
  filePath :: string

type_synonym store = "ImageData list"

datatype error =
    Error string
  | TypeError
  | ENOENT
  | ENOTDIR
  | EISDIR
  | EEXIST

definition validLabels :: "string list" where
  "validLabels = [''circle'', ''square'', ''triangle'']"

definition validQualities :: "string list" where
  "validQualities = [''perfect'', ''medium'', ''irregular'']"

subsection \<open>\<^verbatim>\<open>getFolderName\<close>\<close>

text \<open>
  \<^verbatim>\<open>return labelToFolder[label] || label\<close>, where \<^verbatim>\<open>labelToFolder\<close> is an object literal.
  A property read on an object literal also finds what the object inherits from
  \<^verbatim>\<open>Object.prototype\<close>: for the twelve names below the read yields a function (or, for
  \<^verbatim>\<open>__proto__\<close>, the prototype object), which is truthy, so \<^verbatim>\<open>getFolderName\<close> returns that
  value and not a string. \<open>JObject\<close> stands for such a value.
\<close>

datatype js_value = JString string | JObject

definition objectPrototypeKeys :: "string list" where
  "objectPrototypeKeys =
     [''constructor'', ''__defineGetter__'', ''__defineSetter__'', ''hasOwnProperty'',
      ''__lookupGetter__'', ''__lookupSetter__'', ''isPrototypeOf'',
      ''propertyIsEnumerable'', ''toString'', ''valueOf'', ''__proto__'',
      ''toLocaleString'']"

definition getFolderName :: "string \<Rightarrow> js_value" where
  "getFolderName lbl =
     (if lbl = ''circle'' then JString ''circles''
      else if lbl = ''square'' then JString ''squares''
      else if lbl = ''triangle'' then JString ''triangles''
      else if lbl \<in> set objectPrototypeKeys then JObject
      else JString lbl)"

subsection \<open>Paths\<close>

text \<open>
  An absolute path is modelled by the list of its components; a path that ends with a
  slash has the empty string as its last component. \<^verbatim>\<open>path.join(base, s1, ..., sn)\<close> joins
  the base and the segments that are not empty with slashes and normalises: the pieces
  between slashes are resolved one after the other, an empty piece and \<^verbatim>\<open>.\<close> are dropped,
  \<^verbatim>\<open>..\<close> removes the last component (and stays at the root), and the result keeps a slash
  at its end when the joined string has one and the result is not the root.
\<close>

type_synonym path = "string list"

fun split_on :: "char \<Rightarrow> string \<Rightarrow> string \<Rightarrow> string list" where
  "split_on d acc [] = [rev acc]"
| "split_on d acc (c # cs) =
     (if c = d then rev acc # split_on d [] cs else split_on d (c # acc) cs)"

fun walk :: "path \<Rightarrow> string list \<Rightarrow> path" where
  "walk p [] = p"
| "walk p (c # cs) =
     (if c = [] \<or> c = ''.'' then walk p cs
      else if c = ''..'' then walk (butlast p) cs
      else walk (p @ [c]) cs)"

definition strip_slash :: "path \<Rightarrow> path" where
  "strip_slash p = (if p \<noteq> [] \<and> last p = [] then butlast p else p)"

definition path_join :: "path \<Rightarrow> string list \<Rightarrow> path" where
  "path_join base segs =
     (let pieces = concat (map (split_on CHR ''/'' []) (filter (\<lambda>seg. seg \<noteq> []) segs));
          comps = walk (strip_slash base) pieces;
          trailing = (if pieces = [] then base \<noteq> [] \<and> last base = [] else last pieces = [])
      in if trailing \<and> comps \<noteq> [] then comps @ [[]] else comps)"

subsection \<open>The directory tree\<close>

text \<open>
  A node is a regular file (modification time, contents) or a directory (modification
  time, entries in the order \<^verbatim>\<open>readdirSync\<close> lists them). Symbolic links and permissions
  are not modelled, and the modification time of a directory is not touched by the
  operations below; the failures that remain are the structural ones (\<open>ENOENT\<close>,
  \<open>ENOTDIR\<close>, \<open>EISDIR\<close>). The empty component, which a slash at the end of a path leaves,
  stays where it is in a directory and leads nowhere from a regular file.
\<close>

datatype node =
    File (mtimeMs: rat) string
  | Dir (mtimeMs: rat) "(string \<times> node) list"

primrec lookup :: "path \<Rightarrow> node \<Rightarrow> node option" where
  "lookup [] n = Some n"
| "lookup (c # cs) n =
     (case n of
        File t d \<Rightarrow> None
      | Dir t es \<Rightarrow>
          (if c = [] then lookup cs n
           else (case map_of es c of None \<Rightarrow> None | Some m \<Rightarrow> lookup cs m)))"

definition existsSync :: "node \<Rightarrow> path \<Rightarrow> bool" where
  "existsSync fs p = (lookup p fs \<noteq> None)"

definition statSync :: "node \<Rightarrow> path \<Rightarrow> error + node" where
  "statSync fs p = (case lookup p fs of None \<Rightarrow> Inl ENOENT | Some n \<Rightarrow> Inr n)"

fun isDirectory :: "node \<Rightarrow> bool" where
  "isDirectory (Dir t es) = True"
| "isDirectory (File t d) = False"

fun isFile :: "node \<Rightarrow> bool" where
  "isFile (File t d) = True"
| "isFile (Dir t es) = False"

definition readdirSync :: "node \<Rightarrow> path \<Rightarrow> error + string list" where
  "readdirSync fs p =
     (case lookup p fs of
        None \<Rightarrow> Inl ENOENT
      | Some (File t d) \<Rightarrow> Inl ENOTDIR
      | Some (Dir t es) \<Rightarrow> Inr (map fst es))"

primrec remove_entry :: "path \<Rightarrow> node \<Rightarrow> node" where
  "remove_entry [] n = n"
| "remove_entry (c # cs) n =
     (case n of
        File t d \<Rightarrow> File t d
      | Dir t es \<Rightarrow>
          (if c = [] then remove_entry cs n
           else if cs = [] then Dir t (filter (\<lambda>(k, m). k \<noteq> c) es)
           else Dir t (map (\<lambda>(k, m). if k = c then (k, remove_entry cs m) else (k, m)) es)))"

text \<open>\<^verbatim>\<open>fs.unlinkSync\<close> removes a regular file and throws on a directory; the root is a directory.\<close>

definition unlinkSync :: "node \<Rightarrow> path \<Rightarrow> error + node" where
  "unlinkSync fs p =
     (case lookup p fs of
        None \<Rightarrow> Inl ENOENT
      | Some (Dir t es) \<Rightarrow> Inl EISDIR
      | Some (File t d) \<Rightarrow> (if p = [] then Inl EISDIR else Inr (remove_entry p fs)))"

text \<open>\<^verbatim>\<open>fs.mkdirSync(dir, { recursive: true })\<close>: creates every missing directory of the path.\<close>

primrec mkdirSync :: "int \<Rightarrow> path \<Rightarrow> node \<Rightarrow> error + node" where
  "mkdirSync now [] n = (case n of File t d \<Rightarrow> Inl EEXIST | Dir t es \<Rightarrow> Inr n)"
| "mkdirSync now (c # cs) n =
     (case n of
        File t d \<Rightarrow> Inl ENOTDIR
      | Dir t es \<Rightarrow>
          (if c = [] then mkdirSync now cs n
           else
             (case map_of es c of
                None \<Rightarrow>
                  (case mkdirSync now cs (Dir (of_int now) []) of
                     Inl e \<Rightarrow> Inl e
                   | Inr m' \<Rightarrow> Inr (Dir t (es @ [(c, m')])))
              | Some m \<Rightarrow>
                  (case mkdirSync now cs m of
                     Inl e \<Rightarrow> Inl e
                   | Inr m' \<Rightarrow>
                       Inr (Dir t (map (\<lambda>(k, x). if k = c then (k, m') else (k, x)) es))))))"

text \<open>\<^verbatim>\<open>fs.writeFileSync(file, data)\<close>: creates the file in an existing directory, or overwrites it.\<close>

primrec writeFileSync :: "int \<Rightarrow> string \<Rightarrow> path \<Rightarrow> node \<Rightarrow> error + node" where
  "writeFileSync now d [] n =
     (case n of File t d' \<Rightarrow> Inr (File (of_int now) d) | Dir t es \<Rightarrow> Inl EISDIR)"
| "writeFileSync now d (c # cs) n =
     (case n of
        File t d' \<Rightarrow> Inl ENOTDIR
      | Dir t es \<Rightarrow>
          (if c = [] then writeFileSync now d cs n
           else
             (case map_of es c of
                None \<Rightarrow>
                  (if cs = [] then Inr (Dir t (es @ [(c, File (of_int now) d)])) else Inl ENOENT)
              | Some m \<Rightarrow>
                  (case writeFileSync now d cs m of
                     Inl e \<Rightarrow> Inl e
                   | Inr m' \<Rightarrow>
                       Inr (Dir t (map (\<lambda>(k, x). if k = c then (k, m') else (k, x)) es))))))"

subsection \<open>The two regular expressions of the scan, and \<^verbatim>\<open>parseInt\<close>\<close>

text \<open>
  \<^verbatim>\<open>/\.(png|jpg|jpeg)$/i\<close> holds of a name that ends, in any letter case, with one of
  the three extensions. \<^verbatim>\<open>/^(.+)_(\d+)\.(png|jpg|jpeg)$/i\<close> holds when what precedes the
  extension is a non-empty run of characters other than line terminators, an underscore and a
  non-empty run of digits; since the underscore is no digit, the digits are the whole last run
  of digits. A string is the list of the bytes of its UTF-8 form: the line terminators are
  \<^verbatim>\<open>\n\<close>, \<^verbatim>\<open>\r\<close> and the three bytes each of U+2028 and U+2029.
\<close>

definition to_lower :: "char \<Rightarrow> char" where
  "to_lower c =
     (case map_of (zip ''ABCDEFGHIJKLMNOPQRSTUVWXYZ'' ''abcdefghijklmnopqrstuvwxyz'') c of
        None \<Rightarrow> c
      | Some l \<Rightarrow> l)"

definition ends_with :: "string \<Rightarrow> string \<Rightarrow> bool" where
  "ends_with e f = (length e \<le> length f \<and> drop (length f - length e) f = e)"

definition strip_image_ext :: "string \<Rightarrow> string option" where
  "strip_image_ext f =
     (let l = map to_lower f in
      if ends_with ''.png'' l \<or> ends_with ''.jpg'' l then Some (take (length f - 4) f)
      else if ends_with ''.jpeg'' l then Some (take (length f - 5) f)
      else None)"

definition has_image_ext :: "string \<Rightarrow> bool" where
  "has_image_ext f = (strip_image_ext f \<noteq> None)"

definition is_digit :: "char \<Rightarrow> bool" where
  "is_digit c = (c \<in> set ''0123456789'')"

fun has_line_terminator :: "string \<Rightarrow> bool" where
  "has_line_terminator [] = False"
| "has_line_terminator (c # cs) =
     (c = CHR 0x0A \<or> c = CHR 0x0D
      \<or> (c = CHR 0xE2 \<and> (take 2 cs = [CHR 0x80, CHR 0xA8] \<or> take 2 cs = [CHR 0x80, CHR 0xA9]))
      \<or> has_line_terminator cs)"

definition match_timestamp :: "string \<Rightarrow> string option" where
  "match_timestamp f =
     (case strip_image_ext f of
        None \<Rightarrow> None
      | Some stem \<Rightarrow>
          (let ds = rev (takeWhile is_digit (rev stem));
               front = rev (dropWhile is_digit (rev stem))
           in if ds \<noteq> [] \<and> front \<noteq> [] \<and> last front = CHR ''_'' \<and> butlast front \<noteq> []
                 \<and> \<not> has_line_terminator (butlast front)
              then Some ds else None))"

definition digit_val :: "char \<Rightarrow> nat" where
  "digit_val c =
     (case map_of (zip ''0123456789'' [0, 1, 2, 3, 4, 5, 6, 7, 8, 9]) c of
        None \<Rightarrow> 0
      | Some v \<Rightarrow> v)"

text \<open>
  \<^verbatim>\<open>parseInt(digits, 10)\<close> is the double nearest to the integer the digits write (a tie goes
  to the even significand), and \<^verbatim>\<open>Infinity\<close> from \<open>2^1024\<close> on. Up to \<open>2^53\<close> every integer
  is a double.
\<close>

fun bit_length :: "nat \<Rightarrow> nat" where
  "bit_length n = (if n = 0 then 0 else Suc (bit_length (n div 2)))"

declare bit_length.simps [simp del]

definition to_double :: "nat \<Rightarrow> number" where
  "to_double n =
     (if n < 2 ^ 53 then Finite (of_nat n)
      else
        (let e = bit_length n - 53;
             q = n div 2 ^ e;
             r = n mod 2 ^ e;
             q' = (if 2 ^ e < 2 * r \<or> (2 * r = 2 ^ e \<and> odd q) then q + 1 else q)
         in if 2 ^ 1024 \<le> q' * 2 ^ e then Infinity else Finite (of_nat (q' * 2 ^ e))))"

definition parseInt :: "string \<Rightarrow> number" where
  "parseInt ds = to_double (foldl (\<lambda>a c. 10 * a + digit_val c) 0 ds)"

definition file_timestamp :: "string \<Rightarrow> rat \<Rightarrow> number" where
  "file_timestamp f mtime =
     (case match_timestamp f of Some ds \<Rightarrow> parseInt ds | None \<Rightarrow> Finite mtime)"

subsection \<open>\<^verbatim>\<open>loadImagesFromFilesystem\<close>\<close>

text \<open>
  \<^verbatim>\<open>forEach\<close> with a callback that may throw: the loop stops at the first exception, and
  the array keeps what was pushed before it. A step returns the exception, if any, and the
  array it leaves.
\<close>

fun forEach :: "'a list \<Rightarrow> ('a \<Rightarrow> store \<Rightarrow> error option \<times> store) \<Rightarrow> store \<Rightarrow> error option \<times> store" where
  "forEach [] f s = (None, s)"
| "forEach (x # xs) f s =
     (case f x s of
        (None, s') \<Rightarrow> forEach xs f s'
      | (Some e, s') \<Rightarrow> (Some e, s'))"

text \<open>Lines 86 to 91 and 118 to 123: push the record unless the array has one with its three fields.\<close>

definition push_unless_exists :: "ImageData \<Rightarrow> store \<Rightarrow> store" where
  "push_unless_exists r s =
     (if list_ex (\<lambda>img. filename img = filename r \<and> label img = label r \<and> quality img = quality r) s
      then s else s @ [r])"

definition scan_quality_file ::
  "node \<Rightarrow> string \<Rightarrow> string \<Rightarrow> string \<Rightarrow> path \<Rightarrow> string \<Rightarrow> store \<Rightarrow> error option \<times> store" where
  "scan_quality_file fs lbl folderName qual qualityDir file s =
     (if has_image_ext file then
        (case statSync fs (path_join qualityDir [file]) of
           Inl e \<Rightarrow> (Some e, s)
         | Inr fileStats \<Rightarrow>
             (None, push_unless_exists
                \<lparr>filename = file, label = lbl, quality = qual, image = '''',
                 timestamp = file_timestamp file (mtimeMs fileStats),
                 filePath = ''/shapes/'' @ folderName @ ''/'' @ qual @ ''/'' @ file\<rparr> s))
      else (None, s))"

definition scan_quality ::
  "node \<Rightarrow> string \<Rightarrow> string \<Rightarrow> path \<Rightarrow> string \<Rightarrow> store \<Rightarrow> error option \<times> store" where
  "scan_quality fs lbl folderName labelDir qual s =
     (let qualityDir = path_join labelDir [qual] in
      if existsSync fs qualityDir then
        (case readdirSync fs qualityDir of
           Inl e \<Rightarrow> (Some e, s)
         | Inr files \<Rightarrow> forEach files (scan_quality_file fs lbl folderName qual qualityDir) s)
      else (None, s))"

definition scan_legacy_file ::
  "node \<Rightarrow> string \<Rightarrow> string \<Rightarrow> path \<Rightarrow> string \<Rightarrow> store \<Rightarrow> error option \<times> store" where
  "scan_legacy_file fs lbl folderName labelDir file s =
     (case statSync fs (path_join labelDir [file]) of
        Inl e \<Rightarrow> (Some e, s)
      | Inr fileStats \<Rightarrow>
          (if isFile fileStats \<and> has_image_ext file then
             (None, push_unless_exists
                \<lparr>filename = file, label = lbl, quality = ''perfect'', image = '''',
                 timestamp = file_timestamp file (mtimeMs fileStats),
                 filePath = ''/shapes/'' @ folderName @ ''/'' @ file\<rparr> s)
           else (None, s)))"

definition scan_label :: "node \<Rightarrow> path \<Rightarrow> string \<Rightarrow> store \<Rightarrow> error option \<times> store" where
  "scan_label fs publicShapesDir lbl s =
     (case getFolderName lbl of
        JObject \<Rightarrow> (Some TypeError, s)
      | JString folderName \<Rightarrow>
          (let labelDir = path_join publicShapesDir [folderName] in
           if existsSync fs labelDir then
             (case statSync fs labelDir of
                Inl e \<Rightarrow> (Some e, s)
              | Inr stats \<Rightarrow>
                  (if isDirectory stats then
                     (case forEach validQualities (scan_quality fs lbl folderName labelDir) s of
                        (Some e, s1) \<Rightarrow> (Some e, s1)
                      | (None, s1) \<Rightarrow>
                          (case readdirSync fs labelDir of
                             Inl e \<Rightarrow> (Some e, s1)
                           | Inr files \<Rightarrow>
                               forEach files (scan_legacy_file fs lbl folderName labelDir) s1))
                   else (None, s)))
           else (None, s)))"

text \<open>The body of the \<^verbatim>\<open>try\<close> block: the exception that left it, if any, and the array.\<close>

definition scan_body :: "path \<Rightarrow> node \<Rightarrow> store \<Rightarrow> error option \<times> store" where
  "scan_body cwd fs s =
     (let publicShapesDir = path_join cwd [''public'', ''shapes''] in
      if \<not> existsSync fs publicShapesDir then (None, s)
      else forEach validLabels (scan_label fs publicShapesDir) s)"

text \<open>The \<^verbatim>\<open>catch\<close> logs the exception and returns.\<close>

definition loadImagesFromFilesystem :: "path \<Rightarrow> node \<Rightarrow> store \<Rightarrow> store" where
  "loadImagesFromFilesystem cwd fs s = snd (scan_body cwd fs s)"

subsection \<open>\<^verbatim>\<open>addImage\<close>\<close>

text \<open>
  The clock \<^verbatim>\<open>Date.now()\<close> is the argument \<open>now\<close>, an integer, which the template
  literal of the file name renders in decimal. The result is the returned record or the
  thrown exception, with the tree and the array as the call leaves them. The bytes
  written are \<^verbatim>\<open>Buffer.from(base64Data, "base64")\<close>; the model keeps the text \<open>base64Data\<close>.
\<close>

definition digit_char :: "nat \<Rightarrow> char" where
  "digit_char d =
     (if d = 0 then CHR ''0'' else if d = 1 then CHR ''1'' else if d = 2 then CHR ''2''
      else if d = 3 then CHR ''3'' else if d = 4 then CHR ''4'' else if d = 5 then CHR ''5''
      else if d = 6 then CHR ''6'' else if d = 7 then CHR ''7'' else if d = 8 then CHR ''8''
      else CHR ''9'')"

fun digits_of :: "nat \<Rightarrow> string" where
  "digits_of n =
     (if n < 10 then [digit_char n]
      else digits_of (n div 10) @ [digit_char (n mod 10)])"

declare digits_of.simps [simp del]

definition number_to_string :: "int \<Rightarrow> string" where
  "number_to_string i = (if i < 0 then CHR ''-'' # digits_of (nat (- i)) else digits_of (nat i))"

fun join_with :: "string \<Rightarrow> string list \<Rightarrow> string" where
  "join_with sep [] = []"
| "join_with sep [x] = x"
| "join_with sep (x # y # ys) = x @ sep @ join_with sep (y # ys)"

definition is_word :: "char \<Rightarrow> bool" where
  "is_word c =
     (c \<in> set ''abcdefghijklmnopqrstuvwxyzABCDEFGHIJKLMNOPQRSTUVWXYZ0123456789_'')"

text \<open>\<^verbatim>\<open>image.replace(/^data:image\/\w+;base64,/, "")\<close>\<close>

definition strip_data_url :: "string \<Rightarrow> string" where
  "strip_data_url img =
     (if take 11 img = ''data:image/'' then
        (let w = takeWhile is_word (drop 11 img);
             rest = dropWhile is_word (drop 11 img)
         in if w \<noteq> [] \<and> take 8 rest = '';base64,'' then drop 8 rest else img)
      else img)"

definition addImage ::
  "int \<Rightarrow> path \<Rightarrow> node \<Rightarrow> store \<Rightarrow> string \<Rightarrow> string \<Rightarrow> string \<Rightarrow> (error + ImageData) \<times> node \<times> store" where
  "addImage now cwd fs s lbl qual img =
     (let fname = lbl @ ''_'' @ number_to_string now @ ''.png'' in
      if lbl \<notin> set validLabels then
        (Inl (Error (''Invalid label: '' @ lbl @ ''. Must be one of: '' @ join_with '', '' validLabels)),
         fs, s)
      else if qual \<notin> set validQualities then
        (Inl (Error (''Invalid quality: '' @ qual @ ''. Must be one of: ''
                     @ join_with '', '' validQualities)),
         fs, s)
      else
        (let base64Data = strip_data_url img in
         case getFolderName lbl of
           JObject \<Rightarrow> (Inl TypeError, fs, s)
         | JString folderName \<Rightarrow>
             (let publicDir = path_join cwd [''public'', ''shapes'', folderName, qual];
                  fpath = path_join publicDir [fname]
              in case (if \<not> existsSync fs publicDir then mkdirSync now publicDir fs else Inr fs) of
                   Inl e \<Rightarrow> (Inl e, fs, s)
                 | Inr fs1 \<Rightarrow>
                     (case writeFileSync now base64Data fpath fs1 of
                        Inl e \<Rightarrow> (Inl e, fs1, s)
                      | Inr fs2 \<Rightarrow>
                          (let imageData =
                                 \<lparr>filename = fname, label = lbl, quality = qual, image = img,
                                  timestamp = Finite (of_int now),
                                  filePath = ''/shapes/'' @ folderName @ ''/'' @ qual @ ''/'' @ fname\<rparr>
                           in (Inr imageData, fs2, s @ [imageData]))))))"

subsection \<open>The queries\<close>

text \<open>
  \<^verbatim>\<open>[...store].sort((a, b) => b.timestamp - a.timestamp)\<close>: \<^verbatim>\<open>Array.prototype.sort\<close> is a
  stable sort, here by descending timestamp; \<open>sort_key\<close> is the stable insertion sort.
\<close>

definition getAllImages :: "store \<Rightarrow> ImageData list" where
  "getAllImages s = sort_key (\<lambda>img. - timestamp img) s"

definition getImagesByLabel :: "store \<Rightarrow> string \<Rightarrow> ImageData list" where
  "getImagesByLabel s lbl = filter (\<lambda>img. label img = lbl) s"

definition getImagesByQuality :: "store \<Rightarrow> string \<Rightarrow> ImageData list" where
  "getImagesByQuality s qual = filter (\<lambda>img. quality img = qual) s"

definition getImagesByLabelAndQuality :: "store \<Rightarrow> string \<Rightarrow> string \<Rightarrow> ImageData list" where
  "getImagesByLabelAndQuality s lbl qual = filter (\<lambda>img. label img = lbl \<and> quality img = qual) s"

text \<open>
  Whether the array that \<^verbatim>\<open>getAllImages\<close> returns is the store's own array is a matter
  of references. Arrays live in a heap, addressed by their index in it: the spread
  \<^verbatim>\<open>[...a]\<close> allocates a new array with the elements of \<open>a\<close>, and \<^verbatim>\<open>sort\<close> sorts the
  array it is called on in place and returns its reference.
\<close>

type_synonym heap = "ImageData list list"

definition spread :: "nat \<Rightarrow> heap \<Rightarrow> nat \<times> heap" where
  "spread a h = (length h, h @ [h ! a])"

definition sort_in_place :: "nat \<Rightarrow> heap \<Rightarrow> nat \<times> heap" where
  "sort_in_place a h = (a, h[a := sort_key (\<lambda>img. - timestamp img) (h ! a)])"

definition getAllImages_ref :: "nat \<Rightarrow> heap \<Rightarrow> nat \<times> heap" where
  "getAllImages_ref imageStore h =
     (case spread imageStore h of (c, h1) \<Rightarrow> sort_in_place c h1)"

subsection \<open>\<^verbatim>\<open>findImageInStore\<close> and \<^verbatim>\<open>deleteImage\<close>\<close>

text \<open>\<^verbatim>\<open>q || "perfect"\<close>: the empty string is the falsy string.\<close>

definition or_perfect :: "string \<Rightarrow> string" where
  "or_perfect q = (if q = [] then ''perfect'' else q)"

definition same_image :: "string \<Rightarrow> string \<Rightarrow> string \<Rightarrow> ImageData \<Rightarrow> bool" where
  "same_image fname lbl qual img =
     (filename img = fname \<and> label img = lbl \<and> or_perfect (quality img) = or_perfect qual)"

definition findImageInStore :: "store \<Rightarrow> string \<Rightarrow> string \<Rightarrow> string \<Rightarrow> ImageData option" where
  "findImageInStore s fname lbl qual = find (same_image fname lbl qual) s"

text \<open>The loop over \<^verbatim>\<open>pathsToTry\<close>: the flag \<^verbatim>\<open>deleted\<close> and the tree it leaves.\<close>

fun try_paths :: "node \<Rightarrow> path list \<Rightarrow> bool \<times> node" where
  "try_paths fs [] = (False, fs)"
| "try_paths fs (p # ps) =
     (if existsSync fs p then
        (case unlinkSync fs p of
           Inr fs' \<Rightarrow> (True, fs')
         | Inl err \<Rightarrow> try_paths fs ps)
      else try_paths fs ps)"

text \<open>The candidate of lines 247 to 256, from the record found in the store.\<close>

definition stored_paths :: "path \<Rightarrow> ImageData option \<Rightarrow> path list" where
  "stored_paths cwd imageInStore =
     (case imageInStore of
        None \<Rightarrow> []
      | Some img \<Rightarrow>
          (if filePath img \<noteq> [] then
             (let relativePath =
                    (if take 1 (filePath img) = ''/'' then drop 1 (filePath img) else filePath img)
              in [path_join cwd [''public'', relativePath]])
           else []))"

text \<open>
  The array \<^verbatim>\<open>pathsToTry\<close> of lines 244 to 269, once \<^verbatim>\<open>getFolderName\<close> has returned the
  string \<open>folderName\<close>.
\<close>

definition pathsToTry :: "path \<Rightarrow> store \<Rightarrow> string \<Rightarrow> string \<Rightarrow> string \<Rightarrow> string \<Rightarrow> path list" where
  "pathsToTry cwd s fname lbl qual folderName =
     (let imageInStore = findImageInStore s fname lbl qual;
          qualityDir = path_join cwd [''public'', ''shapes'', folderName, qual];
          qualityFilePath = path_join qualityDir [fname];
          oldDir = path_join cwd [''public'', ''shapes'', folderName];
          oldFilePath = path_join oldDir [fname]
      in stored_paths cwd imageInStore @ [qualityFilePath] @ [oldFilePath])"

text \<open>
  The body of the \<^verbatim>\<open>try\<close> block. \<^verbatim>\<open>path.join\<close> throws a \<^verbatim>\<open>TypeError\<close> on an argument
  that is no string, which is what \<^verbatim>\<open>getFolderName\<close> returns for a label that names a
  property of \<^verbatim>\<open>Object.prototype\<close>; nothing has been changed by then.
\<close>

definition deleteImage_body ::
  "path \<Rightarrow> node \<Rightarrow> store \<Rightarrow> string \<Rightarrow> string \<Rightarrow> string \<Rightarrow> (error + bool) \<times> node \<times> store" where
  "deleteImage_body cwd fs s fname lbl qual =
     (case getFolderName lbl of
        JObject \<Rightarrow> (Inl TypeError, fs, s)
      | JString folderName \<Rightarrow>
          (case try_paths fs (pathsToTry cwd s fname lbl qual folderName) of
             (deleted, fs') \<Rightarrow>
               (let s' = filter (\<lambda>img. \<not> same_image fname lbl qual img) s;
                    removedFromStore = (length s' < length s)
                in (Inr (deleted \<or> removedFromStore), fs', s'))))"

text \<open>The \<^verbatim>\<open>catch\<close> logs the exception and returns \<^verbatim>\<open>false\<close>.\<close>

definition deleteImage ::
  "path \<Rightarrow> node \<Rightarrow> store \<Rightarrow> string \<Rightarrow> string \<Rightarrow> string \<Rightarrow> bool \<times> node \<times> store" where
  "deleteImage cwd fs s fname lbl qual =
     (case deleteImage_body cwd fs s fname lbl qual of
        (Inr b, fs', s') \<Rightarrow> (b, fs', s')
      | (Inl e, fs', s') \<Rightarrow> (False, fs', s'))"

subsection \<open>Notions the properties are stated with\<close>



definition valid_record :: "ImageData \<Rightarrow> bool" where
  "valid_record img = (label img \<in> set validLabels \<and> quality img \<in> set validQualities)"

definition store_valid :: "store \<Rightarrow> bool" where
  "store_valid s = list_all valid_record s"

definition scanned :: "string \<Rightarrow> string \<Rightarrow> ImageData \<Rightarrow> bool" where
  "scanned lbl qual img = (label img = lbl \<and> quality img = qual)"

text \<open>The test of lines 86 to 88: the array has a record with the three fields of \<open>r\<close>.\<close>

definition has_key :: "ImageData \<Rightarrow> store \<Rightarrow> bool" where
  "has_key r s =
     list_ex (\<lambda>img. filename img = filename r \<and> label img = label r \<and> quality img = quality r) s"

text \<open>
  The states of the array that the module can reach: it starts empty, and is changed by
  the scan, by \<^verbatim>\<open>addImage\<close> (whether it returns or throws) and by \<^verbatim>\<open>deleteImage\<close>, each
  on any directory tree, with any clock and any arguments.
\<close>

inductive reachable :: "store \<Rightarrow> bool" where
  start: "reachable []"
| scan: "reachable s \<Longrightarrow> reachable (loadImagesFromFilesystem cwd fs s)"
| add: "reachable s \<Longrightarrow> addImage now cwd fs s lbl qual img = (res, fs', s') \<Longrightarrow> reachable s'"
| delete: "reachable s \<Longrightarrow> deleteImage cwd fs s fname lbl qual = (b, fs', s') \<Longrightarrow> reachable s'"

text \<open>
  A name that \<^verbatim>\<open>readdirSync\<close> can list: not empty, not \<^verbatim>\<open>.\<close> or \<^verbatim>\<open>..\<close>, without a slash.
  A tree is well named when every entry of every directory has such a name.
\<close>

definition simple_name :: "string \<Rightarrow> bool" where
  "simple_name k = (k \<noteq> [] \<and> k \<noteq> ''.'' \<and> k \<noteq> ''..'' \<and> CHR ''/'' \<notin> set k)"

primrec well_named :: "node \<Rightarrow> bool" where
  "well_named (File t d) = True"
| "well_named (Dir t es) =
     list_all (\<lambda>(k, b). simple_name k \<and> b) (map (map_prod id well_named) es)"

text \<open>
  A step of the scan pushes records of a kind \<open>P\<close> when, whatever the array, it leaves the
  array it found with some records of that kind pushed by \<open>push_unless_exists\<close>, in order.
\<close>

abbreviation push_all :: "store \<Rightarrow> ImageData list \<Rightarrow> store" where
  "push_all \<equiv> foldl (\<lambda>a r. push_unless_exists r a)"

definition pushes :: "(ImageData \<Rightarrow> bool) \<Rightarrow> (store \<Rightarrow> error option \<times> store) \<Rightarrow> bool" where
  "pushes P F = (\<exists>e rs. list_all P rs \<and> (\<forall>s. F s = (e, push_all s rs)))"

text \<open>
  The triple of a record as the scan compares it (the quality as it stands), and the
  triples of an array.
\<close>

definition triple_of :: "ImageData \<Rightarrow> string \<times> string \<times> string" where
  "triple_of img = (filename img, label img, quality img)"

definition triples :: "store \<Rightarrow> (string \<times> string \<times> string) set" where
  "triples s = triple_of ` set s"

text \<open>
  The triples that the scan reads in a label folder: for each of the three quality
  subdirectories that is a directory, the entries with an image extension, with the quality
  of the subdirectory; and the regular files with an image extension that lie in the label
  folder itself, with the quality \<^verbatim>\<open>perfect\<close>.
\<close>

definition label_entries :: "node \<Rightarrow> path \<Rightarrow> string \<Rightarrow> (string \<times> string \<times> string) set" where
  "label_entries fs labelDir lbl =
     {(f, l, q). l = lbl \<and> has_image_ext f
        \<and> (\<exists>t es. lookup labelDir fs = Some (Dir t es))
        \<and> (q \<in> set validQualities
             \<and> (\<exists>t es. lookup (labelDir @ [q]) fs = Some (Dir t es) \<and> f \<in> fst ` set es)
           \<or> q = ''perfect'' \<and> (\<exists>t d. lookup (labelDir @ [f]) fs = Some (File t d)))}"

text \<open>
  The triples of the image files on disk: a regular file with an image extension in a
  quality subdirectory of one of the three label folders has the quality of the
  subdirectory, and one that lies flat in the label folder has the quality \<^verbatim>\<open>perfect\<close>.
\<close>

definition on_disk :: "path \<Rightarrow> node \<Rightarrow> (string \<times> string \<times> string) set" where
  "on_disk cwd fs =
     {(f, lbl, q). \<exists>folderName labelDir.
        lbl \<in> set validLabels \<and> getFolderName lbl = JString folderName
        \<and> labelDir = path_join cwd [''public'', ''shapes'', folderName]
        \<and> has_image_ext f
        \<and> (\<exists>t es. lookup labelDir fs = Some (Dir t es))
        \<and> (q \<in> set validQualities \<and> (\<exists>t d. lookup (labelDir @ [q, f]) fs = Some (File t d))
           \<or> q = ''perfect'' \<and> (\<exists>t d. lookup (labelDir @ [f]) fs = Some (File t d)))}"

text \<open>
  Every entry with an image extension in a quality subdirectory of a label folder is a
  regular file.
\<close>

definition quality_entries_regular :: "path \<Rightarrow> node \<Rightarrow> bool" where
  "quality_entries_regular cwd fs =
     list_all (\<lambda>lbl.
       case getFolderName lbl of
         JObject \<Rightarrow> True
       | JString folderName \<Rightarrow>
           list_all (\<lambda>q.
             case lookup (path_join cwd [''public'', ''shapes'', folderName, q]) fs of
               Some (Dir t es) \<Rightarrow> list_all (\<lambda>(f, n). has_image_ext f \<longrightarrow> isFile n) es
             | _ \<Rightarrow> True) validQualities) validLabels"

text \<open>
  The image files on disk, one path for each: the regular files with an image extension in
  a quality subdirectory of a label folder, and those lying flat in a label folder.
\<close>

definition image_files :: "path \<Rightarrow> node \<Rightarrow> path list" where
  "image_files cwd fs =
     concat (map (\<lambda>lbl.
       case getFolderName lbl of
         JObject \<Rightarrow> []
       | JString folderName \<Rightarrow>
           (let labelDir = path_join cwd [''public'', ''shapes'', folderName] in
            case lookup labelDir fs of
              Some (Dir t es) \<Rightarrow>
                concat (map (\<lambda>q.
                  case lookup (labelDir @ [q]) fs of
                    Some (Dir t' es') \<Rightarrow>
                      [labelDir @ [q, f]. (f, n) \<leftarrow> es', isFile n \<and> has_image_ext f]
                  | _ \<Rightarrow> []) validQualities)
                @ [labelDir @ [f]. (f, n) \<leftarrow> es, isFile n \<and> has_image_ext f]
            | _ \<Rightarrow> [])) validLabels)"

subsection \<open>Concrete inputs\<close>

text \<open>
  The working directory \<^verbatim>\<open>/app\<close>, an empty disk, the record that \<^verbatim>\<open>addImage\<close> makes of a
  circle at the clock value 1000, and the disk after that call.
\<close>

definition app :: path where
  "app = [''app'']"

definition empty_disk :: node where
  "empty_disk = Dir 0 []"

definition png :: string where
  "png = ''data:image/png;base64,AAAA''"

definition circle_1000 :: ImageData where
  "circle_1000 =
     \<lparr>filename = ''circle_1000.png'', label = ''circle'', quality = ''perfect'',
      image = ''data:image/png;base64,AAAA'', timestamp = Finite 1000,
      filePath = ''/shapes/circles/perfect/circle_1000.png''\<rparr>"

definition disk_1000 :: node where
  "disk_1000 =
     Dir 0 [(''app'', Dir 1000 [(''public'', Dir 1000 [(''shapes'', Dir 1000
       [(''circles'', Dir 1000
          [(''perfect'', Dir 1000 [(''circle_1000.png'', File 1000 ''AAAA'')])])])])])]"

text \<open>
  A disk on which \<^verbatim>\<open>circles/medium\<close> is a regular file, so that reading it as a directory
  fails, and the record the scan makes of the image beside it.
\<close>

definition broken_disk :: node where
  "broken_disk =
     Dir 0 [(''app'', Dir 0 [(''public'', Dir 0 [(''shapes'', Dir 0
       [(''circles'', Dir 0
          [(''perfect'', Dir 0 [(''circle_1000.png'', File 5 ''AAAA'')]),
           (''medium'', File 6 ''not a directory'')])])])])]"

definition scanned_1000 :: ImageData where
  "scanned_1000 =
     \<lparr>filename = ''circle_1000.png'', label = ''circle'', quality = ''perfect'',
      image = '''', timestamp = Finite 1000,
      filePath = ''/shapes/circles/perfect/circle_1000.png''\<rparr>"

text \<open>
  The disk after the image of \<open>disk_1000\<close> is removed, and the record and the disk after a
  second circle is added at the clock value 2000.
\<close>

definition disk_emptied :: node where
  "disk_emptied =
     Dir 0 [(''app'', Dir 1000 [(''public'', Dir 1000 [(''shapes'', Dir 1000
       [(''circles'', Dir 1000 [(''perfect'', Dir 1000 [])])])])])]"

definition circle_2000 :: ImageData where
  "circle_2000 =
     \<lparr>filename = ''circle_2000.png'', label = ''circle'', quality = ''perfect'',
      image = ''data:image/png;base64,AAAA'', timestamp = Finite 2000,
      filePath = ''/shapes/circles/perfect/circle_2000.png''\<rparr>"

definition disk_2000 :: node where
  "disk_2000 =
     Dir 0 [(''app'', Dir 1000 [(''public'', Dir 1000 [(''shapes'', Dir 1000
       [(''circles'', Dir 1000
          [(''perfect'', Dir 1000 [(''circle_1000.png'', File 1000 ''AAAA''),
                                   (''circle_2000.png'', File 2000 ''AAAA'')])])])])])]"

text \<open>
  A disk on which \<^verbatim>\<open>circles/perfect/x.png\<close> is a directory and \<^verbatim>\<open>circles/x.png\<close> a regular
  file; the record the scan makes of the former; the disk without the latter.
\<close>

definition blocked_disk :: node where
  "blocked_disk =
     Dir 0 [(''app'', Dir 0 [(''public'', Dir 0 [(''shapes'', Dir 0
       [(''circles'', Dir 0
          [(''perfect'', Dir 0 [(''x.png'', Dir 3 [])]),
           (''x.png'', File 4 ''AAAA'')])])])])]"

definition unblocked_disk :: node where
  "unblocked_disk =
     Dir 0 [(''app'', Dir 0 [(''public'', Dir 0 [(''shapes'', Dir 0
       [(''circles'', Dir 0
          [(''perfect'', Dir 0 [(''x.png'', Dir 3 [])])])])])])]"

definition scanned_x :: ImageData where
  "scanned_x =
     \<lparr>filename = ''x.png'', label = ''circle'', quality = ''perfect'',
      image = '''', timestamp = Finite 3, filePath = ''/shapes/circles/perfect/x.png''\<rparr>"

text \<open>
  A disk on which an image of the same name lies in \<^verbatim>\<open>circles/perfect\<close> and, flat, in
  \<^verbatim>\<open>circles\<close>, beside a second flat image; the two records the scan makes.
\<close>

definition twin_disk :: node where
  "twin_disk =
     Dir 0 [(''app'', Dir 0 [(''public'', Dir 0 [(''shapes'', Dir 0
       [(''circles'', Dir 0
          [(''perfect'', Dir 0 [(''a_1.png'', File 5 ''AAAA'')]),
           (''a_1.png'', File 6 ''BBBB''),
           (''b.JPG'', File 7 ''CCCC'')])])])])]"

definition scanned_a :: ImageData where
  "scanned_a =
     \<lparr>filename = ''a_1.png'', label = ''circle'', quality = ''perfect'',
      image = '''', timestamp = Finite 1, filePath = ''/shapes/circles/perfect/a_1.png''\<rparr>"

definition scanned_b :: ImageData where
  "scanned_b =
     \<lparr>filename = ''b.JPG'', label = ''circle'', quality = ''perfect'',
      image = '''', timestamp = Finite 7, filePath = ''/shapes/circles/b.JPG''\<rparr>"

text \<open>
  A disk with an image in the \<^verbatim>\<open>perfect\<close> subdirectory of a folder \<^verbatim>\<open>toString\<close> and of a
  folder \<^verbatim>\<open>hexagon\<close>; the disk without the former image, and the disk without the latter.
\<close>

definition proto_disk :: node where
  "proto_disk =
     Dir 0 [(''app'', Dir 0 [(''public'', Dir 0 [(''shapes'', Dir 0
       [(''toString'', Dir 0 [(''perfect'', Dir 0 [(''x.png'', File 1 ''AAAA'')])]),
        (''hexagon'', Dir 0 [(''perfect'', Dir 0 [(''x.png'', File 2 ''BBBB'')])])])])])]"

definition proto_disk_unlinked :: node where
  "proto_disk_unlinked =
     Dir 0 [(''app'', Dir 0 [(''public'', Dir 0 [(''shapes'', Dir 0
       [(''toString'', Dir 0 [(''perfect'', Dir 0 [])]),
        (''hexagon'', Dir 0 [(''perfect'', Dir 0 [(''x.png'', File 2 ''BBBB'')])])])])])]"

definition proto_disk_deleted :: node where
  "proto_disk_deleted =
     Dir 0 [(''app'', Dir 0 [(''public'', Dir 0 [(''shapes'', Dir 0
       [(''toString'', Dir 0 [(''perfect'', Dir 0 [(''x.png'', File 1 ''AAAA'')])]),
        (''hexagon'', Dir 0 [(''perfect'', Dir 0 [])])])])])]"

section \<open>Evaluation on concrete inputs\<close>

text \<open>The defining equations that the simplifier unfolds to run the model on a concrete input.\<close>

lemmas path_eval = Let_def path_join_def strip_slash_def existsSync_def statSync_def readdirSync_def unlinkSync_def
  app_def empty_disk_def

lemmas scan_eval = loadImagesFromFilesystem_def scan_body_def scan_label_def scan_quality_def
  scan_quality_file_def scan_legacy_file_def push_unless_exists_def getFolderName_def
  objectPrototypeKeys_def validLabels_def validQualities_def has_image_ext_def
  strip_image_ext_def ends_with_def to_lower_def file_timestamp_def match_timestamp_def
  is_digit_def parseInt_def to_double_def digit_val_def

lemmas add_eval = addImage_def number_to_string_def digits_of.simps digit_char_def
  strip_data_url_def is_word_def getFolderName_def objectPrototypeKeys_def validLabels_def
  validQualities_def png_def

lemmas delete_eval = deleteImage_def deleteImage_body_def pathsToTry_def stored_paths_def
  findImageInStore_def same_image_def or_perfect_def getFolderName_def objectPrototypeKeys_def

lemma addImage_circle_1000:
  "addImage 1000 app empty_disk [] ''circle'' ''perfect'' png = (Inr circle_1000, disk_1000, [circle_1000])"
  by (simp add: add_eval path_eval circle_1000_def disk_1000_def)

lemma reachable_circle_1000: "reachable [circle_1000]"
  by (rule reachable.add [OF reachable.start addImage_circle_1000])

lemma scan_body_broken_disk: "scan_body app broken_disk [] = (Some ENOTDIR, [scanned_1000])"
  by (simp add: scan_eval path_eval broken_disk_def scanned_1000_def)

section \<open>What the scan pushes\<close>

lemma pushes_skip: "pushes P (\<lambda>s. (e, s))"
  unfolding pushes_def by (rule exI [of _ e], rule exI [of _ "[]"]) simp

lemma pushes_push: "P r \<Longrightarrow> pushes P (\<lambda>s. (None, push_unless_exists r s))"
  unfolding pushes_def by (rule exI [of _ None], rule exI [of _ "[r]"]) simp

lemma pushes_seq:
  assumes "pushes P F" and "pushes P G"
  shows "pushes P (\<lambda>s. case F s of (None, s1) \<Rightarrow> G s1 | (Some e, s1) \<Rightarrow> (Some e, s1))"
proof -
  from assms(1) obtain e rs where F: "list_all P rs" "\<forall>s. F s = (e, push_all s rs)"
    unfolding pushes_def by blast
  from assms(2) obtain e' rs' where G: "list_all P rs'" "\<forall>s. G s = (e', push_all s rs')"
    unfolding pushes_def by blast
  show ?thesis
  proof (cases e)
    case None
    with F G show ?thesis unfolding pushes_def
      by (intro exI [of _ e'] exI [of _ "rs @ rs'"]) simp
  next
    case (Some x)
    with F show ?thesis unfolding pushes_def
      by (intro exI [of _ "Some x"] exI [of _ rs]) simp
  qed
qed

lemma pushes_forEach:
  "(\<And>x. x \<in> set xs \<Longrightarrow> pushes P (f x)) \<Longrightarrow> pushes P (forEach xs f)"
proof (induction xs)
  case Nil
  have "forEach [] f = (\<lambda>s. (None, s))" by (rule ext) simp
  then show ?case by (simp add: pushes_skip)
next
  case (Cons x xs)
  have eq: "forEach (x # xs) f = (\<lambda>s. case f x s of (None, s1) \<Rightarrow> forEach xs f s1 | (Some e, s1) \<Rightarrow> (Some e, s1))"
    by (rule ext) simp
  have "pushes P (f x)" using Cons.prems by simp
  moreover have "pushes P (forEach xs f)" using Cons by simp
  ultimately show ?case unfolding eq by (rule pushes_seq)
qed

lemma pushes_mono: "pushes P F \<Longrightarrow> (\<And>r. P r \<Longrightarrow> Q r) \<Longrightarrow> pushes Q F"
  unfolding pushes_def list_all_iff by blast


lemma pushes_scan_quality_file:
  "pushes (scanned lbl qual) (scan_quality_file fs lbl folderName qual qualityDir file)"
proof -
  have eq: "scan_quality_file fs lbl folderName qual qualityDir file =
    (if has_image_ext file then
        (case statSync fs (path_join qualityDir [file]) of
           Inl e \<Rightarrow> (\<lambda>s. (Some e, s))
         | Inr fileStats \<Rightarrow>
             (\<lambda>s. (None, push_unless_exists
                \<lparr>filename = file, label = lbl, quality = qual, image = '''',
                 timestamp = file_timestamp file (mtimeMs fileStats),
                 filePath = ''/shapes/'' @ folderName @ ''/'' @ qual @ ''/'' @ file\<rparr> s)))
      else (\<lambda>s. (None, s)))"
    by (rule ext) (simp add: scan_quality_file_def split: sum.splits)
  show ?thesis unfolding eq
    by (auto split: sum.splits intro!: pushes_skip pushes_push simp: scanned_def)
qed

lemma pushes_scan_quality:
  "pushes (scanned lbl qual) (scan_quality fs lbl folderName labelDir qual)"
proof -
  have eq: "scan_quality fs lbl folderName labelDir qual =
     (let qualityDir = path_join labelDir [qual] in
      if existsSync fs qualityDir then
        (case readdirSync fs qualityDir of
           Inl e \<Rightarrow> (\<lambda>s. (Some e, s))
         | Inr files \<Rightarrow> forEach files (scan_quality_file fs lbl folderName qual qualityDir))
      else (\<lambda>s. (None, s)))"
    by (rule ext) (simp add: scan_quality_def Let_def split: sum.splits)
  show ?thesis unfolding eq Let_def
    by (auto split: sum.splits intro!: pushes_skip pushes_forEach pushes_scan_quality_file)
qed

lemma pushes_scan_legacy_file:
  "pushes (scanned lbl ''perfect'') (scan_legacy_file fs lbl folderName labelDir file)"
proof -
  have eq: "scan_legacy_file fs lbl folderName labelDir file =
     (case statSync fs (path_join labelDir [file]) of
        Inl e \<Rightarrow> (\<lambda>s. (Some e, s))
      | Inr fileStats \<Rightarrow>
          (if isFile fileStats \<and> has_image_ext file then
             (\<lambda>s. (None, push_unless_exists
                \<lparr>filename = file, label = lbl, quality = ''perfect'', image = '''',
                 timestamp = file_timestamp file (mtimeMs fileStats),
                 filePath = ''/shapes/'' @ folderName @ ''/'' @ file\<rparr> s))
           else (\<lambda>s. (None, s))))"
    by (rule ext) (simp add: scan_legacy_file_def split: sum.splits)
  show ?thesis unfolding eq
    by (auto split: sum.splits intro!: pushes_skip pushes_push simp: scanned_def)
qed


lemma pushes_scan_label:
  assumes "lbl \<in> set validLabels"
  shows "pushes valid_record (scan_label fs publicShapesDir lbl)"
proof -
  have eq: "scan_label fs publicShapesDir lbl =
     (case getFolderName lbl of
        JObject \<Rightarrow> (\<lambda>s. (Some TypeError, s))
      | JString folderName \<Rightarrow>
          (let labelDir = path_join publicShapesDir [folderName] in
           if existsSync fs labelDir then
             (case statSync fs labelDir of
                Inl e \<Rightarrow> (\<lambda>s. (Some e, s))
              | Inr stats \<Rightarrow>
                  (if isDirectory stats then
                     (\<lambda>s. case forEach validQualities (scan_quality fs lbl folderName labelDir) s of
                        (None, s1) \<Rightarrow>
                          (case readdirSync fs labelDir of
                             Inl e \<Rightarrow> (\<lambda>s1. (Some e, s1))
                           | Inr files \<Rightarrow>
                               forEach files (scan_legacy_file fs lbl folderName labelDir)) s1
                      | (Some e, s1) \<Rightarrow> (Some e, s1))
                   else (\<lambda>s. (None, s))))
           else (\<lambda>s. (None, s))))"
    by (rule ext) (simp add: scan_label_def Let_def split: sum.splits js_value.splits prod.splits option.splits)
  have q: "pushes valid_record (forEach validQualities (scan_quality fs lbl folderName labelDir))" for folderName labelDir
  proof (rule pushes_forEach)
    fix x assume "x \<in> set validQualities"
    then show "pushes valid_record (scan_quality fs lbl folderName labelDir x)"
      using assms by (intro pushes_mono [OF pushes_scan_quality]) (simp add: scanned_def valid_record_def)
  qed
  have l: "pushes valid_record (forEach files (scan_legacy_file fs lbl folderName labelDir))" for files folderName labelDir
  proof (rule pushes_forEach)
    fix x
    show "pushes valid_record (scan_legacy_file fs lbl folderName labelDir x)"
      using assms by (intro pushes_mono [OF pushes_scan_legacy_file]) (simp add: scanned_def valid_record_def validQualities_def)
  qed
  show ?thesis unfolding eq Let_def
    by (auto split: sum.splits js_value.splits intro!: pushes_skip pushes_seq q l)
qed

lemma pushes_scan_body: "pushes valid_record (scan_body cwd fs)"
proof -
  have eq: "scan_body cwd fs =
     (let publicShapesDir = path_join cwd [''public'', ''shapes''] in
      if \<not> existsSync fs publicShapesDir then (\<lambda>s. (None, s))
      else forEach validLabels (scan_label fs publicShapesDir))"
    by (rule ext) (simp add: scan_body_def Let_def)
  show ?thesis unfolding eq Let_def
    by (auto intro!: pushes_skip pushes_forEach pushes_scan_label)
qed

section \<open>Pushing records that may be there already\<close>

lemma push_unless_exists_alt:
  "push_unless_exists r s = (if has_key r s then s else s @ [r])"
  by (simp add: push_unless_exists_def has_key_def)

lemma has_key_push: "has_key r (push_unless_exists r s)"
  by (auto simp: push_unless_exists_alt has_key_def list_ex_iff)

lemma has_key_push_mono: "has_key r s \<Longrightarrow> has_key r (push_unless_exists q s)"
  by (auto simp: push_unless_exists_alt has_key_def list_ex_iff)

lemma has_key_foldl_mono: "has_key r s \<Longrightarrow> has_key r (push_all s rs)"
  by (induction rs arbitrary: s) (auto simp: has_key_push_mono)

lemma has_key_foldl: "r \<in> set rs \<Longrightarrow> has_key r (push_all s rs)"
  by (induction rs arbitrary: s) (auto simp: has_key_push has_key_foldl_mono)

lemma push_all_fixed: "(\<And>r. r \<in> set rs \<Longrightarrow> has_key r s) \<Longrightarrow> push_all s rs = s"
  by (induction rs arbitrary: s) (auto simp: push_unless_exists_alt)

lemma push_all_idem: "push_all (push_all s rs) rs = push_all s rs"
  by (rule push_all_fixed) (rule has_key_foldl)

lemma push_all_prefix: "prefix s (push_all s rs)"
proof (induction rs arbitrary: s)
  case Nil show ?case by simp
next
  case (Cons r rs)
  have "prefix s (push_unless_exists r s)" by (simp add: push_unless_exists_alt)
  also have "prefix \<dots> (push_all (push_unless_exists r s) rs)" by (rule Cons.IH)
  finally show ?case by simp
qed

lemma push_all_all:
  "list_all P rs \<Longrightarrow> list_all P s \<Longrightarrow> list_all P (push_all s rs)"
  by (induction rs arbitrary: s) (auto simp: push_unless_exists_alt)


lemma store_valid_iff: "store_valid s = list_all valid_record s"
  by (simp add: store_valid_def)





lemma scan_body_foldl:
  obtains e rs where "list_all valid_record rs"
    and "\<And>s. scan_body cwd fs s = (e, push_all s rs)"
  using pushes_scan_body [of cwd fs] unfolding pushes_def by blast

lemma load_valid: "store_valid s \<Longrightarrow> store_valid (loadImagesFromFilesystem cwd fs s)"
  by (rule scan_body_foldl [of cwd fs])
     (simp add: loadImagesFromFilesystem_def store_valid_iff push_all_all)


lemma load_prefix: "prefix s (loadImagesFromFilesystem cwd fs s)"
  by (rule scan_body_foldl [of cwd fs])
     (simp add: loadImagesFromFilesystem_def push_all_prefix)

lemma load_idem:
  "loadImagesFromFilesystem cwd fs (loadImagesFromFilesystem cwd fs s) = loadImagesFromFilesystem cwd fs s"
  by (rule scan_body_foldl [of cwd fs])
     (simp add: loadImagesFromFilesystem_def push_all_idem)

lemma addImage_store:
  "addImage now cwd fs s lbl qual img = (res, fs', s') \<Longrightarrow>
     s' = s \<or> (\<exists>r. res = Inr r \<and> s' = s @ [r] \<and> label r = lbl \<and> quality r = qual
          \<and> filename r = lbl @ ''_'' @ number_to_string now @ ''.png''
          \<and> lbl \<in> set validLabels \<and> qual \<in> set validQualities)"
  by (auto simp: addImage_def Let_def split: if_splits js_value.splits sum.splits)

lemma addImage_valid:
  "store_valid s \<Longrightarrow> addImage now cwd fs s lbl qual img = (res, fs', s') \<Longrightarrow> store_valid s'"
  by (drule addImage_store) (auto simp: store_valid_def valid_record_def)

lemma deleteImage_store:
  "deleteImage cwd fs s fname lbl qual = (b, fs', s') \<Longrightarrow>
     s' = s \<or> s' = filter (\<lambda>img. \<not> same_image fname lbl qual img) s"
  by (auto simp: deleteImage_def deleteImage_body_def Let_def split: js_value.splits prod.splits)

lemma deleteImage_valid:
  "store_valid s \<Longrightarrow> deleteImage cwd fs s fname lbl qual = (b, fs', s') \<Longrightarrow> store_valid s'"
  by (drule deleteImage_store) (auto simp: store_valid_def list_all_iff)


lemma reachable_store_valid: "reachable s \<Longrightarrow> store_valid s"
proof (induction rule: reachable.induct)
  case start
  show ?case by (simp add: store_valid_def)
next
  case (scan s cwd fs)
  then show ?case by (simp add: load_valid)
next
  case (add s now cwd fs lbl qual img res fs' s')
  then show ?case by (blast intro: addImage_valid)
next
  case (delete s cwd fs fname lbl qual b fs' s')
  then show ?case by (blast intro: deleteImage_valid)
qed

section \<open>Sorting by descending timestamp\<close>

lemma number_neg_le_iff: "- a \<le> - b \<longleftrightarrow> b \<le> (a::number)"
  by (cases a; cases b) simp_all

lemma number_neg_eq_iff: "- a = - b \<longleftrightarrow> a = (b::number)"
  by (cases a; cases b) simp_all

lemma Finite_less_iff: "Finite x < Finite y \<longleftrightarrow> x < y"
  by (auto simp: less_number_def)

lemma sorted_wrt_desc_iff:
  "sorted_wrt (\<lambda>a b. timestamp b \<le> timestamp a) xs = sorted (map (\<lambda>img. - timestamp img) xs)"
  by (induction xs) (auto simp: number_neg_le_iff)

lemma getAllImages_desc: "sorted_wrt (\<lambda>a b. timestamp b \<le> timestamp a) (getAllImages s)"
  by (simp add: sorted_wrt_desc_iff getAllImages_def)

lemma getAllImages_mset: "mset (getAllImages s) = mset s"
  by (simp add: getAllImages_def)

lemma strict_desc:
  assumes "sorted_wrt (\<lambda>a b. timestamp b \<le> timestamp a) xs" "distinct (map timestamp xs)"
  shows "sorted_wrt (\<lambda>a b. timestamp b < timestamp a) xs"
  using assms by (induction xs) (auto simp: order_less_le image_iff)

lemma getAllImages_strict:
  assumes "distinct (map timestamp s)"
  shows "sorted_wrt (\<lambda>a b. timestamp b < timestamp a) (getAllImages s)"
proof -
  have "mset (map timestamp (getAllImages s)) = mset (map timestamp s)"
    by (simp add: getAllImages_mset)
  then have "distinct (map timestamp (getAllImages s))"
    using assms by (metis mset_eq_imp_distinct_iff)
  then show ?thesis using getAllImages_desc strict_desc by blast
qed

lemma filter_key_rev:
  assumes "distinct (map f xs)"
  shows "filter (\<lambda>x. k = f x) (rev xs) = filter (\<lambda>x. k = f x) xs"
proof -
  have "length (filter (\<lambda>x. k = f x) xs) \<le> 1"
    using assms
  proof (induction xs)
    case Nil then show ?case by simp
  next
    case (Cons a xs)
    then show ?case by (auto simp: filter_empty_conv)
  qed
  then have "rev (filter (\<lambda>x. k = f x) xs) = filter (\<lambda>x. k = f x) xs"
    by (cases "filter (\<lambda>x. k = f x) xs") (auto simp: le_Suc_eq)
  then show ?thesis by (simp add: rev_filter)
qed

lemma getAllImages_rev:
  assumes "sorted_wrt (\<lambda>a b. timestamp a < timestamp b) s"
  shows "getAllImages s = rev s"
proof -
  let ?f = "\<lambda>img. - timestamp img"
  have d: "distinct (map timestamp s)" using assms
    by (induction s) (auto simp: image_iff)
  have s: "sorted (map ?f (rev s))" using assms
    by (induction s) (auto simp: sorted_append rev_map [symmetric] less_imp_le number_neg_le_iff)
  show ?thesis unfolding getAllImages_def
    by (rule properties_for_sort_key)
       (simp_all add: s number_neg_eq_iff filter_key_rev [OF d])
qed

lemma getAllImages_ref_fresh:
  assumes "a < length h" "getAllImages_ref a h = (r, h')"
  shows "r \<noteq> a \<and> h' ! r = getAllImages (h ! a) \<and> h' ! a = h ! a \<and> (\<forall>xs. h'[r := xs] ! a = h ! a)"
  using assms
  by (auto simp: getAllImages_ref_def spread_def sort_in_place_def getAllImages_def nth_append)

section \<open>Removing a file\<close>

lemma map_of_filter_key: "map_of (filter (\<lambda>(k, m). k \<noteq> c) es) c = None"
  by (induction es) auto

lemma map_of_map_key:
  "map_of (map (\<lambda>(k, m). if k = c then (k, g m) else (k, m)) es) c = map_option g (map_of es c)"
  by (induction es) auto

lemma remove_entry_Dir: "\<exists>es'. remove_entry p (Dir t es) = Dir t es'"
  by (induction p) auto

lemma lookup_remove_entry:
  "lookup p fs = Some (File t d) \<Longrightarrow> p \<noteq> [] \<Longrightarrow> lookup p (remove_entry p fs) = None"
proof (induction p arbitrary: fs)
  case Nil
  then show ?case by simp
next
  case (Cons c cs)
  from Cons.prems(1) obtain t' es where fs: "fs = Dir t' es" by (cases fs) auto
  show ?case
  proof (cases "c = []")
    case True
    with Cons.prems(1) fs have l: "lookup cs fs = Some (File t d)" by simp
    with fs have "cs \<noteq> []" by auto
    with l have "lookup cs (remove_entry cs fs) = None" by (rule Cons.IH)
    moreover have "\<exists>es''. remove_entry cs fs = Dir t' es''"
      unfolding fs by (rule remove_entry_Dir)
    ultimately show ?thesis using True fs by auto
  next
    case False
    from Cons.prems(1) fs False obtain m where m: "map_of es c = Some m"
      and l: "lookup cs m = Some (File t d)"
      by (auto split: option.splits)
    show ?thesis
    proof (cases "cs = []")
      case True
      then show ?thesis using fs False by (simp add: map_of_filter_key)
    next
      case nonempty: False
      from l nonempty have "lookup cs (remove_entry cs m) = None" by (rule Cons.IH)
      then show ?thesis using fs False nonempty m by (simp add: map_of_map_key)
    qed
  qed
qed

lemma unlinkSync_removes:
  assumes "unlinkSync fs p = Inr fs'"
  shows "(\<exists>t d. lookup p fs = Some (File t d)) \<and> lookup p fs' = None \<and> fs' = remove_entry p fs"
  using assms lookup_remove_entry [of p fs]
  by (auto simp: unlinkSync_def split: option.splits node.splits if_splits)

lemma try_paths_find:
  "try_paths fs ps =
     (case find (\<lambda>p. existsSync fs p \<and> \<not> isl (unlinkSync fs p)) ps of
        None \<Rightarrow> (False, fs)
      | Some p \<Rightarrow> (True, projr (unlinkSync fs p)))"
  by (induction ps) (auto split: sum.splits)

lemma try_paths_cases:
  assumes "try_paths fs ps = (deleted, fs')"
  shows "(deleted \<and> (\<exists>p t d. lookup p fs = Some (File t d) \<and> lookup p fs' = None))
       \<or> (\<not> deleted \<and> fs' = fs)"
proof (cases "find (\<lambda>p. existsSync fs p \<and> \<not> isl (unlinkSync fs p)) ps")
  case None
  with assms show ?thesis by (simp add: try_paths_find)
next
  case (Some p)
  then have "\<not> isl (unlinkSync fs p)" by (auto simp: find_Some_iff)
  then obtain x where x: "unlinkSync fs p = Inr x" by (cases "unlinkSync fs p") auto
  with Some assms have "deleted" "fs' = x" by (simp_all add: try_paths_find)
  with unlinkSync_removes [OF x] show ?thesis by blast
qed

lemma filter_shorter_iff:
  "length (filter (\<lambda>x. \<not> P x) xs) < length xs \<longleftrightarrow> (\<exists>x\<in>set xs. P x)"
proof
  assume "length (filter (\<lambda>x. \<not> P x) xs) < length xs"
  then have "filter (\<lambda>x. \<not> P x) xs \<noteq> xs" by auto
  then show "\<exists>x\<in>set xs. P x" by (auto simp: filter_id_conv)
next
  assume "\<exists>x\<in>set xs. P x"
  then show "length (filter (\<lambda>x. \<not> P x) xs) < length xs"
    by (auto intro: length_filter_less)
qed

lemma deleteImage_body_cases:
  "deleteImage_body cwd fs s fname lbl qual = (res, fs', s') \<Longrightarrow>
     (res = Inl TypeError \<and> fs' = fs \<and> s' = s \<and> getFolderName lbl = JObject)
   \<or> (\<exists>folderName deleted.
         getFolderName lbl = JString folderName
       \<and> try_paths fs (pathsToTry cwd s fname lbl qual folderName) = (deleted, fs')
       \<and> s' = filter (\<lambda>img. \<not> same_image fname lbl qual img) s
       \<and> res = Inr (deleted \<or> (\<exists>img\<in>set s. same_image fname lbl qual img)))"
  by (auto simp: deleteImage_body_def Let_def filter_shorter_iff split: js_value.splits prod.splits)

section \<open>Paths of simple names\<close>

lemma split_on_simple:
  "d \<notin> set a \<Longrightarrow> split_on d acc (a @ d # rest) = (rev acc @ a) # split_on d [] rest"
  by (induction a arbitrary: acc) auto

lemma split_on_last: "d \<notin> set a \<Longrightarrow> split_on d acc a = [rev acc @ a]"
  by (induction a arbitrary: acc) auto

lemma split_simple_name: "simple_name k \<Longrightarrow> split_on CHR ''/'' [] k = [k]"
  by (simp add: simple_name_def split_on_last)

lemma walk_simple: "list_all simple_name cs \<Longrightarrow> walk p cs = p @ cs"
  by (induction cs arbitrary: p) (auto simp: simple_name_def)

lemma walk_append: "walk p (xs @ ys) = walk (walk p xs) ys"
  by (induction xs arbitrary: p) auto

lemma strip_slash_snoc: "c \<noteq> [] \<Longrightarrow> strip_slash (p @ [c]) = p @ [c]"
  by (simp add: strip_slash_def)

lemma pieces_simple:
  "list_all simple_name cs \<Longrightarrow>
     concat (map (split_on CHR ''/'' []) (filter (\<lambda>seg. seg \<noteq> []) cs)) = cs"
  by (induction cs) (auto simp: split_simple_name simple_name_def)

lemma path_join_simple:
  assumes "list_all simple_name cs" "cs \<noteq> []"
  shows "path_join p cs = strip_slash p @ cs"
proof -
  have "last cs \<noteq> []" using assms by (induction cs) (auto simp: simple_name_def)
  then show ?thesis using assms
    by (simp add: path_join_def Let_def pieces_simple walk_simple)
qed

lemma path_join_snoc:
  assumes "simple_name k" "c \<noteq> []"
  shows "path_join (p @ [c]) [k] = p @ [c, k]"
  using path_join_simple [of "[k]" "p @ [c]"] assms by (simp add: strip_slash_snoc)

lemma path_join_web_path:
  assumes "simple_name folderName" "simple_name qual" "simple_name fname"
  shows "path_join cwd [''public'', ''shapes/'' @ folderName @ ''/'' @ qual @ ''/'' @ fname]
     = strip_slash cwd @ [''public'', ''shapes'', folderName, qual, fname]"
proof -
  let ?w = "''shapes/'' @ folderName @ ''/'' @ qual @ ''/'' @ fname"
  have s: "CHR ''/'' \<notin> set ''shapes''" by simp
  have w: "?w = ''shapes'' @ CHR ''/'' # folderName @ CHR ''/'' # qual @ CHR ''/'' # fname"
    by simp
  have b: "split_on CHR ''/'' [] ?w = [''shapes'', folderName, qual, fname]"
    unfolding w using assms
    by (simp only: split_on_simple [OF s] rev.simps append_Nil)
       (simp add: simple_name_def split_on_simple split_on_last)
  have a: "split_on CHR ''/'' [] ''public'' = [''public'']" by simp
  have n: "filter (\<lambda>seg. seg \<noteq> []) [''public'', ?w] = [''public'', ?w]" by simp
  have c: "concat (map (split_on CHR ''/'' []) (filter (\<lambda>seg. seg \<noteq> []) [''public'', ?w]))
      = [''public'', ''shapes'', folderName, qual, fname]"
    unfolding n by (simp only: list.map concat.simps a b) simp
  have l: "list_all simple_name [''public'', ''shapes'', folderName, qual, fname]"
    using assms by (simp add: simple_name_def)
  have f: "fname \<noteq> []" using assms(3) by (simp add: simple_name_def)
  show ?thesis unfolding path_join_def c Let_def walk_simple [OF l] using f by simp
qed

section \<open>What \<^verbatim>\<open>addImage\<close> and \<^verbatim>\<open>findImageInStore\<close> do to the array\<close>



section \<open>More evaluations\<close>

lemma delete_circle_1000:
  "deleteImage app disk_1000 [circle_1000] ''circle_1000.png'' ''circle'' ''perfect''
     = (True, disk_emptied, [])"
  by (simp add: delete_eval path_eval circle_1000_def disk_1000_def disk_emptied_def)

lemma delete_again:
  "deleteImage app disk_emptied [] ''circle_1000.png'' ''circle'' ''perfect''
     = (False, disk_emptied, [])"
  by (simp add: delete_eval path_eval disk_emptied_def)

lemma delete_constructor_body:
  "deleteImage_body app disk_1000 [circle_1000] ''circle_1000.png'' ''constructor'' ''perfect''
     = (Inl TypeError, disk_1000, [circle_1000])"
  by (simp add: delete_eval)

lemma delete_constructor:
  "deleteImage app disk_1000 [circle_1000] ''circle_1000.png'' ''constructor'' ''perfect''
     = (False, disk_1000, [circle_1000])"
  by (simp add: deleteImage_def delete_constructor_body)

lemma addImage_circle_2000:
  "addImage 2000 app disk_1000 [circle_1000] ''circle'' ''perfect'' png
     = (Inr circle_2000, disk_2000, [circle_1000, circle_2000])"
  by (simp add: add_eval path_eval circle_1000_def circle_2000_def disk_1000_def disk_2000_def)

lemma scan_blocked_disk: "loadImagesFromFilesystem app blocked_disk [] = [scanned_x]"
  by (simp add: scan_eval path_eval blocked_disk_def scanned_x_def)


section \<open>The triples the scan pushes\<close>

lemma has_key_triple: "has_key r s \<longleftrightarrow> triple_of r \<in> triples s"
proof -
  have "has_key r s \<longleftrightarrow> (\<exists>img\<in>set s. triple_of img = triple_of r)"
    by (simp add: has_key_def list_ex_iff triple_of_def)
  also have "\<dots> \<longleftrightarrow> triple_of r \<in> triples s"
    unfolding triples_def image_iff by (metis (no_types))
  finally show ?thesis .
qed

lemma triples_push: "triples (push_unless_exists r s) = insert (triple_of r) (triples s)"
  using has_key_triple [of r s] by (auto simp: push_unless_exists_alt triples_def)

lemma distinct_push:
  "distinct (map triple_of s) \<Longrightarrow> distinct (map triple_of (push_unless_exists r s))"
  using has_key_triple [of r s] by (auto simp: push_unless_exists_alt triples_def)

lemma distinct_push_all:
  "distinct (map triple_of s) \<Longrightarrow> distinct (map triple_of (push_all s rs))"
  by (induction rs arbitrary: s) (auto simp: distinct_push)

lemma load_distinct:
  "distinct (map triple_of s) \<Longrightarrow> distinct (map triple_of (loadImagesFromFilesystem cwd fs s))"
  by (rule scan_body_foldl [of cwd fs])
     (simp add: loadImagesFromFilesystem_def distinct_push_all)

lemma forEach_triples:
  assumes "forEach xs f s = (None, s')"
    and "\<And>x s s1. x \<in> set xs \<Longrightarrow> f x s = (None, s1) \<Longrightarrow> triples s1 = triples s \<union> K x"
  shows "triples s' = triples s \<union> (\<Union>x\<in>set xs. K x)"
  using assms
proof (induction xs arbitrary: s)
  case Nil
  then show ?case by simp
next
  case (Cons x xs)
  obtain e s1 where fx: "f x s = (e, s1)" by (cases "f x s")
  with Cons.prems(1) have e: "e = None" by (cases e) auto
  with fx Cons.prems(1) have rest: "forEach xs f s1 = (None, s')" by simp
  have "triples s1 = triples s \<union> K x" using Cons.prems(2) [of x s s1] fx e by simp
  moreover have "triples s' = triples s1 \<union> (\<Union>x\<in>set xs. K x)"
    using Cons.IH [OF rest] Cons.prems(2) by simp
  ultimately show ?case by auto
qed

lemma lookup_append:
  "lookup (p @ q) n = (case lookup p n of None \<Rightarrow> None | Some m \<Rightarrow> lookup q m)"
  by (induction p arbitrary: n) (auto split: node.splits option.splits)

lemma well_named_entry:
  "well_named (Dir t es) \<Longrightarrow> (k, m) \<in> set es \<Longrightarrow> simple_name k \<and> well_named m"
  by (auto simp: list_all_iff)

lemma well_named_lookup: "well_named n \<Longrightarrow> lookup p n = Some m \<Longrightarrow> well_named m"
proof (induction p arbitrary: n)
  case Nil
  then show ?case by simp
next
  case (Cons c cs)
  from Cons.prems(2) obtain t es where n: "n = Dir t es" by (cases n) auto
  show ?case
  proof (cases "c = []")
    case True
    with Cons.prems(2) n have "lookup cs n = Some m" by simp
    with Cons.prems(1) show ?thesis by (rule Cons.IH)
  next
    case False
    with Cons.prems(2) n obtain x where c: "map_of es c = Some x" and l: "lookup cs x = Some m"
      by (auto split: option.splits)
    from c have "(c, x) \<in> set es" by (rule map_of_SomeD)
    with Cons.prems(1) n have "well_named x" using well_named_entry by blast
    then show ?thesis using l by (rule Cons.IH)
  qed
qed

lemma well_named_names:
  assumes "well_named n" "lookup p n = Some (Dir t es)" "k \<in> fst ` set es"
  shows "simple_name k"
proof -
  have w: "well_named (Dir t es)" using assms(1,2) by (rule well_named_lookup)
  from assms(3) obtain m where "(k, m) \<in> set es" by auto
  with w show ?thesis using well_named_entry by blast
qed

lemma scan_quality_file_triples:
  assumes "scan_quality_file fs lbl folderName qual qualityDir file s = (None, s1)"
  shows "triples s1 = triples s \<union> (if has_image_ext file then {(file, lbl, qual)} else {})"
  using assms
  by (auto simp: scan_quality_file_def triples_push triple_of_def split: if_splits sum.splits)

lemma scan_body_twin_disk: "scan_body app twin_disk [] = (None, [scanned_a, scanned_b])"
  by (simp add: scan_eval path_eval twin_disk_def scanned_a_def scanned_b_def)

lemma well_named_twin_disk: "well_named twin_disk"
  by (simp add: twin_disk_def simple_name_def)

lemma push_all_fresh:
  "\<exists>added. push_all s rs = s @ added \<and> distinct (map triple_of added)
     \<and> (\<forall>r\<in>set added. triple_of r \<notin> triples s)"
proof (induction rs arbitrary: s)
  case Nil
  show ?case by simp
next
  case (Cons r rs)
  show ?case
  proof (cases "has_key r s")
    case True
    then show ?thesis using Cons.IH [of s] by (simp add: push_unless_exists_alt)
  next
    case False
    from Cons.IH [of "s @ [r]"] obtain added where a: "push_all (s @ [r]) rs = (s @ [r]) @ added"
      "distinct (map triple_of added)" "\<forall>x\<in>set added. triple_of x \<notin> triples (s @ [r])"
      by blast
    have n: "triple_of r \<notin> triples s" using False by (simp add: has_key_triple)
    have "push_all s (r # rs) = s @ (r # added)"
      using False a(1) by (simp add: push_unless_exists_alt)
    moreover have "distinct (map triple_of (r # added))"
      using a(2,3) by (auto simp: triples_def)
    moreover have "\<forall>x\<in>set (r # added). triple_of x \<notin> triples s"
      using a(3) n by (auto simp: triples_def)
    ultimately show ?thesis by blast
  qed
qed

lemma load_fresh:
  "\<exists>added. loadImagesFromFilesystem cwd fs s = s @ added \<and> distinct (map triple_of added)
     \<and> (\<forall>r\<in>set added. triple_of r \<notin> triples s)"
  by (rule scan_body_foldl [of cwd fs])
     (simp add: loadImagesFromFilesystem_def push_all_fresh)

lemma has_image_ext_nonempty: "has_image_ext f \<Longrightarrow> f \<noteq> []"
  by (auto simp: has_image_ext_def strip_image_ext_def ends_with_def)

lemma scan_quality_triples:
  assumes "scan_quality fs lbl folderName labelDir qual s = (None, s1)" and "simple_name qual"
    and dir: "strip_slash labelDir = labelDir"
  shows "triples s1 = triples s \<union>
     {(f, l, q). l = lbl \<and> q = qual \<and> has_image_ext f
        \<and> (\<exists>t es. lookup (labelDir @ [qual]) fs = Some (Dir t es) \<and> f \<in> fst ` set es)}"
proof -
  have p: "path_join labelDir [qual] = labelDir @ [qual]"
    using assms(2) dir path_join_simple [of "[qual]" labelDir] by simp
  show ?thesis
  proof (cases "lookup (labelDir @ [qual]) fs")
    case None
    then show ?thesis using assms(1) by (auto simp: scan_quality_def p existsSync_def)
  next
    case (Some n)
    show ?thesis
    proof (cases n)
      case (File t d)
      with Some assms(1) show ?thesis
        by (auto simp: scan_quality_def p existsSync_def readdirSync_def)
    next
      case (Dir t es)
      with Some assms(1) have fe: "forEach (map fst es)
          (scan_quality_file fs lbl folderName qual (labelDir @ [qual])) s = (None, s1)"
        by (simp add: scan_quality_def p existsSync_def readdirSync_def)
      have "triples s1 = triples s \<union>
          (\<Union>file\<in>set (map fst es). if has_image_ext file then {(file, lbl, qual)} else {})"
        using fe by (rule forEach_triples) (rule scan_quality_file_triples)
      then show ?thesis using Some Dir by auto
    qed
  qed
qed

lemma scan_legacy_file_triples:
  assumes "scan_legacy_file fs lbl folderName labelDir file s = (None, s1)" and "simple_name file"
    and dir: "strip_slash labelDir = labelDir"
  shows "triples s1 = triples s \<union>
     (if has_image_ext file \<and> (\<exists>t d. lookup (labelDir @ [file]) fs = Some (File t d))
      then {(file, lbl, ''perfect'')} else {})"
proof -
  have p: "path_join labelDir [file] = labelDir @ [file]"
    using assms(2) dir path_join_simple [of "[file]" labelDir] by simp
  show ?thesis
  proof (cases "lookup (labelDir @ [file]) fs")
    case None
    then show ?thesis using assms(1) by (auto simp: scan_legacy_file_def p statSync_def)
  next
    case (Some n)
    then show ?thesis using assms(1)
      by (cases n)
         (auto simp: scan_legacy_file_def p statSync_def triples_push triple_of_def
            split: if_splits)
  qed
qed

lemma scan_label_triples:
  assumes body: "scan_label fs publicShapesDir lbl s = (None, s1)"
    and wn: "well_named fs"
    and folder: "getFolderName lbl = JString folderName" "simple_name folderName"
    and shapes: "strip_slash publicShapesDir = publicShapesDir"
  shows "triples s1 = triples s \<union> label_entries fs (publicShapesDir @ [folderName]) lbl"
proof -
  let ?dir = "publicShapesDir @ [folderName]"
  have p: "path_join publicShapesDir [folderName] = ?dir"
    using folder(2) shapes path_join_simple [of "[folderName]" publicShapesDir] by simp
  have dir: "strip_slash ?dir = ?dir"
    using folder(2) by (simp add: strip_slash_snoc simple_name_def)
  show ?thesis
  proof (cases "lookup ?dir fs")
    case None
    then have "label_entries fs ?dir lbl = {}" by (auto simp: label_entries_def)
    then show ?thesis using body None by (simp add: scan_label_def folder(1) p existsSync_def)
  next
    case (Some n)
    show ?thesis
    proof (cases n)
      case (File t d)
      with Some have "label_entries fs ?dir lbl = {}" by (auto simp: label_entries_def)
      then show ?thesis using body Some File
        by (simp add: scan_label_def folder(1) p existsSync_def statSync_def)
    next
      case (Dir t es)
      obtain e2 s2 where q: "forEach validQualities (scan_quality fs lbl folderName ?dir) s = (e2, s2)"
        by (cases "forEach validQualities (scan_quality fs lbl folderName ?dir) s")
      have e2: "e2 = None" using body Some Dir q
        by (cases e2) (simp_all add: scan_label_def folder(1) p existsSync_def statSync_def)
      have l: "forEach (map fst es) (scan_legacy_file fs lbl folderName ?dir) s2 = (None, s1)"
        using body Some Dir q e2
        by (simp add: scan_label_def folder(1) p existsSync_def statSync_def readdirSync_def)
      have sq: "simple_name x" if "x \<in> set validQualities" for x
        using that by (auto simp: validQualities_def simple_name_def)
      have stepq: "triples b = triples a \<union>
             {(f, l, q). l = lbl \<and> q = qual \<and> has_image_ext f
                \<and> (\<exists>t es. lookup (?dir @ [qual]) fs = Some (Dir t es) \<and> f \<in> fst ` set es)}"
        if "qual \<in> set validQualities" "scan_quality fs lbl folderName ?dir qual a = (None, b)"
        for qual a b
        using that(2) sq [OF that(1)] dir by (rule scan_quality_triples)
      have t2: "triples s2 = triples s \<union>
          (\<Union>qual\<in>set validQualities.
             {(f, l, q). l = lbl \<and> q = qual \<and> has_image_ext f
                \<and> (\<exists>t es. lookup (?dir @ [qual]) fs = Some (Dir t es) \<and> f \<in> fst ` set es)})"
        using q [unfolded e2] by (rule forEach_triples) (rule stepq)
      have sn: "simple_name x" if "x \<in> set (map fst es)" for x
        using well_named_names [OF wn, of ?dir t es x] Some Dir that by simp
      have stepl: "triples b = triples a \<union>
             (if has_image_ext fl \<and> (\<exists>t d. lookup (?dir @ [fl]) fs = Some (File t d))
              then {(fl, lbl, ''perfect'')} else {})"
        if "fl \<in> set (map fst es)" "scan_legacy_file fs lbl folderName ?dir fl a = (None, b)"
        for fl a b
        using that(2) sn [OF that(1)] dir by (rule scan_legacy_file_triples)
      have t1: "triples s1 = triples s2 \<union>
          (\<Union>file\<in>set (map fst es).
             if has_image_ext file \<and> (\<exists>t d. lookup (?dir @ [file]) fs = Some (File t d))
             then {(file, lbl, ''perfect'')} else {})"
        using l by (rule forEach_triples) (rule stepl)
      have entry: "f \<in> fst ` set es" if "lookup (?dir @ [f]) fs = Some (File t' d')" for f t' d'
      proof -
        have "lookup (?dir @ [f]) fs =
            (if f = [] then Some (Dir t es)
             else case map_of es f of None \<Rightarrow> None | Some m \<Rightarrow> Some m)"
          unfolding lookup_append [of ?dir "[f]" fs] Some Dir
          by (simp split: option.splits)
        with that have "map_of es f = Some (File t' d')"
          by (simp split: option.splits if_splits)
        then have "(f, File t' d') \<in> set es" by (rule map_of_SomeD)
        then show ?thesis by force
      qed
      have "(\<Union>qual\<in>set validQualities.
             {(f, l, q). l = lbl \<and> q = qual \<and> has_image_ext f
                \<and> (\<exists>t es. lookup (?dir @ [qual]) fs = Some (Dir t es) \<and> f \<in> fst ` set es)})
          \<union> (\<Union>file\<in>set (map fst es).
             if has_image_ext file \<and> (\<exists>t d. lookup (?dir @ [file]) fs = Some (File t d))
             then {(file, lbl, ''perfect'')} else {})
          = label_entries fs ?dir lbl" (is "?A \<union> ?B = ?C")
      proof (rule set_eqI)
        fix x :: "string \<times> string \<times> string"
        obtain f l q where x: "x = (f, l, q)" by (cases x)
        have a: "x \<in> ?A \<longleftrightarrow> l = lbl \<and> has_image_ext f \<and> q \<in> set validQualities
            \<and> (\<exists>t es. lookup (?dir @ [q]) fs = Some (Dir t es) \<and> f \<in> fst ` set es)"
          unfolding x by auto
        have b: "x \<in> ?B \<longleftrightarrow> l = lbl \<and> q = ''perfect'' \<and> has_image_ext f
            \<and> (\<exists>t d. lookup (?dir @ [f]) fs = Some (File t d))"
          unfolding x using entry by (auto split: if_splits)
        have c: "x \<in> ?C \<longleftrightarrow> l = lbl \<and> has_image_ext f
            \<and> (q \<in> set validQualities
                 \<and> (\<exists>t es. lookup (?dir @ [q]) fs = Some (Dir t es) \<and> f \<in> fst ` set es)
               \<or> q = ''perfect'' \<and> (\<exists>t d. lookup (?dir @ [f]) fs = Some (File t d)))"
          unfolding x using Some Dir by (simp add: label_entries_def)
        show "x \<in> ?A \<union> ?B \<longleftrightarrow> x \<in> ?C" unfolding Un_iff a b c by blast
      qed
      then show ?thesis using t1 t2 by (simp add: Un_assoc)
    qed
  qed
qed

lemma lookup_file_entry:
  assumes l: "lookup (dir @ [f]) fs = Some (File t' d')"
  shows "\<exists>t es. lookup dir fs = Some (Dir t es) \<and> (f, File t' d') \<in> set es"
proof -
  from l obtain m where m: "lookup dir fs = Some m" and l2: "lookup [f] m = Some (File t' d')"
    by (auto simp: lookup_append split: option.splits)
  from l2 obtain t es where d: "m = Dir t es" and e: "map_of es f = Some (File t' d')"
    by (cases m) (auto split: option.splits if_splits)
  from e have "(f, File t' d') \<in> set es" by (rule map_of_SomeD)
  with m d show ?thesis by blast
qed

lemma lookup_entry_file:
  assumes d: "lookup dir fs = Some (Dir t es)" and e: "f \<in> fst ` set es" and f: "f \<noteq> []"
    and reg: "\<And>n. (f, n) \<in> set es \<Longrightarrow> isFile n"
  shows "\<exists>t' d'. lookup (dir @ [f]) fs = Some (File t' d')"
proof -
  from e have "map_of es f \<noteq> None" by (simp add: map_of_eq_None_iff)
  then obtain n where n: "map_of es f = Some n" by blast
  then have "(f, n) \<in> set es" by (rule map_of_SomeD)
  with reg have "isFile n" by blast
  then obtain t' d' where "n = File t' d'" by (cases n) auto
  with d n f have "lookup (dir @ [f]) fs = Some (File t' d')"
    by (simp add: lookup_append)
  then show ?thesis by blast
qed

lemma quality_entries_regularD:
  assumes "quality_entries_regular cwd fs" "lbl \<in> set validLabels"
    "getFolderName lbl = JString folderName" "q \<in> set validQualities"
    "lookup (path_join cwd [''public'', ''shapes'', folderName, q]) fs = Some (Dir t es)"
    "(f, n) \<in> set es" "has_image_ext f"
  shows "isFile n"
proof -
  from assms(1,2,3) have "list_all (\<lambda>q.
             case lookup (path_join cwd [''public'', ''shapes'', folderName, q]) fs of
               Some (Dir t es) \<Rightarrow> list_all (\<lambda>(f, n). has_image_ext f \<longrightarrow> isFile n) es
             | _ \<Rightarrow> True) validQualities"
    unfolding quality_entries_regular_def list_all_iff by force
  with assms(4,5) have "list_all (\<lambda>(f, n). has_image_ext f \<longrightarrow> isFile n) es"
    unfolding list_all_iff by force
  with assms(6,7) show ?thesis unfolding list_all_iff by force
qed

lemma valid_label_folder:
  "lbl \<in> set validLabels \<Longrightarrow>
     \<exists>folderName. getFolderName lbl = JString folderName \<and> simple_name folderName"
  by (auto simp: validLabels_def getFolderName_def simple_name_def)

lemma valid_quality_simple: "q \<in> set validQualities \<Longrightarrow> simple_name q"
  by (auto simp: validQualities_def simple_name_def)

lemma label_dir_simple:
  "simple_name x \<Longrightarrow>
     path_join cwd [''public'', ''shapes'', x] = strip_slash cwd @ [''public'', ''shapes'', x]"
  by (simp add: path_join_simple simple_name_def)

lemma quality_dir_simple:
  "simple_name x \<Longrightarrow> simple_name y \<Longrightarrow>
     path_join cwd [''public'', ''shapes'', x, y] = strip_slash cwd @ [''public'', ''shapes'', x, y]"
  by (simp add: path_join_simple simple_name_def)

lemma scan_body_entries:
  assumes body: "scan_body cwd fs s = (None, s1)" and wn: "well_named fs"
  shows "triples s1 = triples s \<union>
     (\<Union>lbl\<in>set validLabels.
        case getFolderName lbl of
          JString folderName \<Rightarrow>
            label_entries fs (strip_slash cwd @ [''public'', ''shapes'', folderName]) lbl
        | JObject \<Rightarrow> {})"
proof -
  let ?shapes = "strip_slash cwd @ [''public'', ''shapes'']"
  have p: "path_join cwd [''public'', ''shapes''] = ?shapes"
    by (simp add: path_join_simple simple_name_def)
  have shapes: "strip_slash ?shapes = ?shapes"
    using strip_slash_snoc [of "''shapes''" "strip_slash cwd @ [''public'']"] by simp
  show ?thesis
  proof (cases "lookup ?shapes fs")
    case None
    have "lookup (?shapes @ [x]) fs = None" for x
      using None by (simp only: lookup_append [of ?shapes]) simp
    then have "label_entries fs (strip_slash cwd @ [''public'', ''shapes'', x]) lbl = {}" for x lbl
      by (auto simp: label_entries_def)
    then have "(\<Union>lbl\<in>set validLabels.
        case getFolderName lbl of
          JString folderName \<Rightarrow>
            label_entries fs (strip_slash cwd @ [''public'', ''shapes'', folderName]) lbl
        | JObject \<Rightarrow> {}) = {}"
      by (auto split: js_value.splits)
    then show ?thesis using body None
      by (simp add: scan_body_def p existsSync_def)
  next
    case (Some n)
    then have fe: "forEach validLabels (scan_label fs ?shapes) s = (None, s1)"
      using body by (simp add: scan_body_def p existsSync_def)
    have step: "triples b = triples a \<union>
        (case getFolderName lbl of
           JString folderName \<Rightarrow>
             label_entries fs (strip_slash cwd @ [''public'', ''shapes'', folderName]) lbl
         | JObject \<Rightarrow> {})"
      if "lbl \<in> set validLabels" "scan_label fs ?shapes lbl a = (None, b)" for lbl a b
    proof -
      from valid_label_folder [OF that(1)] obtain folderName
        where f: "getFolderName lbl = JString folderName" "simple_name folderName" by blast
      show ?thesis using scan_label_triples [OF that(2) wn f shapes] f(1) by simp
    qed
    show ?thesis using fe by (rule forEach_triples) (rule step)
  qed
qed

lemma on_disk_scanned:
  assumes "x \<in> on_disk cwd fs"
  shows "x \<in> (\<Union>lbl\<in>set validLabels.
        case getFolderName lbl of
          JString folderName \<Rightarrow>
            label_entries fs (strip_slash cwd @ [''public'', ''shapes'', folderName]) lbl
        | JObject \<Rightarrow> {})"
proof -
  obtain f l q where x: "x = (f, l, q)" by (cases x)
  from assms obtain folderName where a: "l \<in> set validLabels"
    "getFolderName l = JString folderName" "has_image_ext f"
    "\<exists>t es. lookup (path_join cwd [''public'', ''shapes'', folderName]) fs = Some (Dir t es)"
    "q \<in> set validQualities
       \<and> (\<exists>t d. lookup (path_join cwd [''public'', ''shapes'', folderName] @ [q, f]) fs
             = Some (File t d))
     \<or> q = ''perfect''
       \<and> (\<exists>t d. lookup (path_join cwd [''public'', ''shapes'', folderName] @ [f]) fs
             = Some (File t d))"
    unfolding x on_disk_def by auto
  let ?dir = "strip_slash cwd @ [''public'', ''shapes'', folderName]"
  from valid_label_folder [OF a(1)] a(2) have sf: "simple_name folderName" by auto
  have d: "path_join cwd [''public'', ''shapes'', folderName] = ?dir"
    using sf by (rule label_dir_simple)
  have e: "\<exists>t es. lookup (?dir @ [q]) fs = Some (Dir t es) \<and> f \<in> fst ` set es"
    if "lookup (?dir @ [q, f]) fs = Some (File t d)" for t d
  proof -
    have "lookup ((?dir @ [q]) @ [f]) fs = Some (File t d)" using that by simp
    from lookup_file_entry [OF this] show ?thesis by force
  qed
  have "(f, l, q) \<in> label_entries fs ?dir l"
    using a(3,4,5) e unfolding d label_entries_def by auto
  then show ?thesis unfolding x using a(1,2) by force
qed

lemma scanned_on_disk:
  assumes reg: "quality_entries_regular cwd fs"
    and x: "x \<in> (\<Union>lbl\<in>set validLabels.
        case getFolderName lbl of
          JString folderName \<Rightarrow>
            label_entries fs (strip_slash cwd @ [''public'', ''shapes'', folderName]) lbl
        | JObject \<Rightarrow> {})"
  shows "x \<in> on_disk cwd fs"
proof -
  obtain f l q where xx: "x = (f, l, q)" by (cases x)
  from x obtain lbl where b: "lbl \<in> set validLabels"
    "(f, l, q) \<in> (case getFolderName lbl of
         JString folderName \<Rightarrow>
           label_entries fs (strip_slash cwd @ [''public'', ''shapes'', folderName]) lbl
       | JObject \<Rightarrow> {})"
    unfolding xx by blast
  from valid_label_folder [OF b(1)] obtain folderName
    where c: "getFolderName lbl = JString folderName" "simple_name folderName" by blast
  let ?dir = "strip_slash cwd @ [''public'', ''shapes'', folderName]"
  have d: "path_join cwd [''public'', ''shapes'', folderName] = ?dir"
    using c(2) by (rule label_dir_simple)
  from b(2) c(1) have m: "l = lbl" "has_image_ext f"
    "\<exists>t es. lookup ?dir fs = Some (Dir t es)"
    "q \<in> set validQualities
       \<and> (\<exists>t es. lookup (?dir @ [q]) fs = Some (Dir t es) \<and> f \<in> fst ` set es)
     \<or> q = ''perfect'' \<and> (\<exists>t d. lookup (?dir @ [f]) fs = Some (File t d))"
    by (auto simp: label_entries_def)
  have e: "\<exists>t d. lookup (?dir @ [q, f]) fs = Some (File t d)"
    if q: "q \<in> set validQualities" and l: "lookup (?dir @ [q]) fs = Some (Dir t es)"
      and i: "f \<in> fst ` set es" for t es
  proof -
    have qd: "path_join cwd [''public'', ''shapes'', folderName, q] = ?dir @ [q]"
      using quality_dir_simple [OF c(2) valid_quality_simple [OF q], of cwd] by simp
    have r: "isFile n" if "(f, n) \<in> set es" for n
      using quality_entries_regularD [OF reg b(1) c(1) q, of t es f n] l that m(2)
      unfolding qd by blast
    have "\<exists>t' d'. lookup ((?dir @ [q]) @ [f]) fs = Some (File t' d')"
      using l i has_image_ext_nonempty [OF m(2)] r by (rule lookup_entry_file)
    then show ?thesis by simp
  qed
  have "q \<in> set validQualities \<and> (\<exists>t d. lookup (?dir @ [q, f]) fs = Some (File t d))
     \<or> q = ''perfect'' \<and> (\<exists>t d. lookup (?dir @ [f]) fs = Some (File t d))"
    using m(4) e by blast
  then show ?thesis
    unfolding xx on_disk_def using b(1) c(1) m(1,2,3) unfolding d [symmetric] by auto
qed

lemma scan_body_files:
  assumes body: "scan_body cwd fs s = (None, s1)" and wn: "well_named fs"
  shows "triples s \<union> on_disk cwd fs \<subseteq> triples s1"
  unfolding scan_body_entries [OF body wn] using on_disk_scanned [of _ cwd fs] by blast

lemma scan_body_triples:
  assumes body: "scan_body cwd fs s = (None, s1)" and wn: "well_named fs"
    and reg: "quality_entries_regular cwd fs"
  shows "triples s1 = triples s \<union> on_disk cwd fs"
  unfolding scan_body_entries [OF body wn]
  using on_disk_scanned [of _ cwd fs] scanned_on_disk [OF reg] by blast

lemma regular_twin_disk: "quality_entries_regular app twin_disk"
  by (simp add: quality_entries_regular_def path_eval twin_disk_def getFolderName_def
      validLabels_def validQualities_def has_image_ext_def strip_image_ext_def ends_with_def
      to_lower_def)

section \<open>The candidate paths of \<^verbatim>\<open>deleteImage\<close>\<close>

text \<open>
  When \<^verbatim>\<open>getFolderName\<close> returns a string, \<^verbatim>\<open>deleteImage\<close> tries the path made of the
  \<^verbatim>\<open>filePath\<close> of the record found in the store (without its leading slash, under
  \<^verbatim>\<open><cwd>/public\<close>), then \<^verbatim>\<open><cwd>/public/shapes/<folder>/<quality>/<filename>\<close>, then
  \<^verbatim>\<open><cwd>/public/shapes/<folder>/<filename>\<close>. It removes the first candidate that exists and
  that \<^verbatim>\<open>unlinkSync\<close> removes without an exception, and no other; a candidate that is
  missing, or whose removal fails, is passed over.
\<close>

lemma deleteImage_candidates:
  assumes "getFolderName lbl = JString folderName"
  shows "pathsToTry cwd s fname lbl qual folderName =
      (case findImageInStore s fname lbl qual of
         None \<Rightarrow> []
       | Some img \<Rightarrow>
           if filePath img = [] then []
           else [path_join cwd [''public'',
                   if take 1 (filePath img) = ''/'' then drop 1 (filePath img) else filePath img]])
      @ [path_join (path_join cwd [''public'', ''shapes'', folderName, qual]) [fname],
         path_join (path_join cwd [''public'', ''shapes'', folderName]) [fname]]"
    and "simple_name folderName \<and> simple_name qual \<and> simple_name fname \<longrightarrow>
         path_join cwd [''public'', ''shapes/'' @ folderName @ ''/'' @ qual @ ''/'' @ fname]
           = strip_slash cwd @ [''public'', ''shapes'', folderName, qual, fname]
       \<and> path_join (path_join cwd [''public'', ''shapes'', folderName, qual]) [fname]
           = strip_slash cwd @ [''public'', ''shapes'', folderName, qual, fname]
       \<and> path_join (path_join cwd [''public'', ''shapes'', folderName]) [fname]
           = strip_slash cwd @ [''public'', ''shapes'', folderName, fname]"
    and "deleteImage cwd fs s fname lbl qual =
        (case find (\<lambda>p. existsSync fs p \<and> \<not> isl (unlinkSync fs p))
                (pathsToTry cwd s fname lbl qual folderName) of
           None \<Rightarrow>
             (\<exists>img\<in>set s. same_image fname lbl qual img, fs,
              filter (\<lambda>img. \<not> same_image fname lbl qual img) s)
         | Some p \<Rightarrow>
             (True, remove_entry p fs, filter (\<lambda>img. \<not> same_image fname lbl qual img) s))"
proof -
  show "pathsToTry cwd s fname lbl qual folderName =
      (case findImageInStore s fname lbl qual of
         None \<Rightarrow> []
       | Some img \<Rightarrow>
           if filePath img = [] then []
           else [path_join cwd [''public'',
                   if take 1 (filePath img) = ''/'' then drop 1 (filePath img) else filePath img]])
      @ [path_join (path_join cwd [''public'', ''shapes'', folderName, qual]) [fname],
         path_join (path_join cwd [''public'', ''shapes'', folderName]) [fname]]"
    by (simp add: pathsToTry_def stored_paths_def Let_def split: option.splits)
  show "simple_name folderName \<and> simple_name qual \<and> simple_name fname \<longrightarrow>
         path_join cwd [''public'', ''shapes/'' @ folderName @ ''/'' @ qual @ ''/'' @ fname]
           = strip_slash cwd @ [''public'', ''shapes'', folderName, qual, fname]
       \<and> path_join (path_join cwd [''public'', ''shapes'', folderName, qual]) [fname]
           = strip_slash cwd @ [''public'', ''shapes'', folderName, qual, fname]
       \<and> path_join (path_join cwd [''public'', ''shapes'', folderName]) [fname]
           = strip_slash cwd @ [''public'', ''shapes'', folderName, fname]"
  proof (intro impI, elim conjE)
    assume a: "simple_name folderName" "simple_name qual" "simple_name fname"
    have q: "qual \<noteq> []" and f: "folderName \<noteq> []" using a by (auto simp: simple_name_def)
    have 1: "path_join (strip_slash cwd @ [''public'', ''shapes'', folderName, qual]) [fname]
        = strip_slash cwd @ [''public'', ''shapes'', folderName, qual, fname]"
      using path_join_snoc [OF a(3) q, of "strip_slash cwd @ [''public'', ''shapes'', folderName]"]
      by simp
    have 2: "path_join (strip_slash cwd @ [''public'', ''shapes'', folderName]) [fname]
        = strip_slash cwd @ [''public'', ''shapes'', folderName, fname]"
      using path_join_snoc [OF a(3) f, of "strip_slash cwd @ [''public'', ''shapes'']"]
      by simp
    show "path_join cwd [''public'', ''shapes/'' @ folderName @ ''/'' @ qual @ ''/'' @ fname]
           = strip_slash cwd @ [''public'', ''shapes'', folderName, qual, fname]
       \<and> path_join (path_join cwd [''public'', ''shapes'', folderName, qual]) [fname]
           = strip_slash cwd @ [''public'', ''shapes'', folderName, qual, fname]
       \<and> path_join (path_join cwd [''public'', ''shapes'', folderName]) [fname]
           = strip_slash cwd @ [''public'', ''shapes'', folderName, fname]"
      using path_join_web_path [OF a, of cwd] 1 2
      by (simp add: quality_dir_simple [OF a(1,2)] label_dir_simple [OF a(1)])
  qed
  show "deleteImage cwd fs s fname lbl qual =
        (case find (\<lambda>p. existsSync fs p \<and> \<not> isl (unlinkSync fs p))
                (pathsToTry cwd s fname lbl qual folderName) of
           None \<Rightarrow>
             (\<exists>img\<in>set s. same_image fname lbl qual img, fs,
              filter (\<lambda>img. \<not> same_image fname lbl qual img) s)
         | Some p \<Rightarrow>
             (True, remove_entry p fs, filter (\<lambda>img. \<not> same_image fname lbl qual img) s))"
  proof (cases "find (\<lambda>p. existsSync fs p \<and> \<not> isl (unlinkSync fs p))
                (pathsToTry cwd s fname lbl qual folderName)")
    case None
    then show ?thesis using assms
      by (simp add: deleteImage_def deleteImage_body_def try_paths_find Let_def filter_shorter_iff)
  next
    case (Some p)
    then have "\<not> isl (unlinkSync fs p)" by (auto simp: find_Some_iff)
    then obtain x where x: "unlinkSync fs p = Inr x" by (cases "unlinkSync fs p") auto
    then have "x = remove_entry p fs" using unlinkSync_removes by blast
    with Some x show ?thesis using assms
      by (simp add: deleteImage_def deleteImage_body_def try_paths_find Let_def filter_shorter_iff)
  qed
qed

lemma deleteImage_blocked_candidate:
  "loadImagesFromFilesystem app blocked_disk [] = [scanned_x]
   \<and> pathsToTry app [scanned_x] ''x.png'' ''circle'' ''perfect'' ''circles'' =
       [[''app'', ''public'', ''shapes'', ''circles'', ''perfect'', ''x.png''],
        [''app'', ''public'', ''shapes'', ''circles'', ''perfect'', ''x.png''],
        [''app'', ''public'', ''shapes'', ''circles'', ''x.png'']]
   \<and> existsSync blocked_disk [''app'', ''public'', ''shapes'', ''circles'', ''perfect'', ''x.png'']
   \<and> unlinkSync blocked_disk [''app'', ''public'', ''shapes'', ''circles'', ''perfect'', ''x.png'']
       = Inl EISDIR
   \<and> deleteImage app blocked_disk [scanned_x] ''x.png'' ''circle'' ''perfect''
       = (True, unblocked_disk, [])"
proof -
  have p: "pathsToTry app [scanned_x] ''x.png'' ''circle'' ''perfect'' ''circles'' =
       [[''app'', ''public'', ''shapes'', ''circles'', ''perfect'', ''x.png''],
        [''app'', ''public'', ''shapes'', ''circles'', ''perfect'', ''x.png''],
        [''app'', ''public'', ''shapes'', ''circles'', ''x.png'']]"
    by (simp add: delete_eval path_eval scanned_x_def)
  have e: "existsSync blocked_disk [''app'', ''public'', ''shapes'', ''circles'', ''perfect'', ''x.png'']"
    by (simp add: existsSync_def blocked_disk_def)
  have u: "unlinkSync blocked_disk [''app'', ''public'', ''shapes'', ''circles'', ''perfect'', ''x.png'']
       = Inl EISDIR"
    by (simp add: unlinkSync_def blocked_disk_def)
  have d: "deleteImage app blocked_disk [scanned_x] ''x.png'' ''circle'' ''perfect''
       = (True, unblocked_disk, [])"
    by (simp add: delete_eval path_eval blocked_disk_def unblocked_disk_def scanned_x_def)
  show ?thesis using scan_blocked_disk p e u d by blast
qed

lemma deleteImage_trailing_slash:
  "deleteImage app disk_1000 [] ''circle_1000.png/'' ''circle'' ''perfect'' = (False, disk_1000, [])"
  by (simp add: delete_eval path_eval disk_1000_def)

section \<open>The claims\<close>

subsection \<open>C1: uniqueness of the key\<close>




subsection \<open>C2: the result of \<^verbatim>\<open>deleteImage\<close>\<close>

text \<open>
  C2. \<^verbatim>\<open>deleteImage\<close> returns true exactly when it removed a file from the directory tree or
  the array held a matching record, which it removed; when it returns false, neither the
  tree nor the array has changed. It never throws: an exception in the body of its
  \<^verbatim>\<open>try\<close> block becomes the result false, with the tree and the array unchanged.
\<close>

theorem deleteImage_result:
  assumes "deleteImage cwd fs s fname lbl qual = (b, fs', s')"
  shows "(b \<longleftrightarrow> (\<exists>p t d. lookup p fs = Some (File t d) \<and> lookup p fs' = None)
              \<or> (\<exists>img\<in>set s. same_image fname lbl qual img \<and> img \<notin> set s'))
       \<and> (\<not> b \<longrightarrow> fs' = fs \<and> s' = s)
       \<and> (\<forall>e. fst (deleteImage_body cwd fs s fname lbl qual) = Inl e \<longrightarrow> \<not> b \<and> fs' = fs \<and> s' = s)"
proof -
  obtain res where body: "deleteImage_body cwd fs s fname lbl qual = (res, fs', s')"
    and b: "b = (case res of Inr x \<Rightarrow> x | Inl e \<Rightarrow> False)"
    using assms by (auto simp: deleteImage_def split: prod.splits sum.splits)
  let ?removed = "\<exists>p t d. lookup p fs = Some (File t d) \<and> lookup p fs' = None"
  let ?dropped = "\<exists>img\<in>set s. same_image fname lbl qual img \<and> img \<notin> set s'"
  from deleteImage_body_cases [OF body]
  have main: "(b \<longleftrightarrow> ?removed \<or> ?dropped) \<and> (\<not> b \<longrightarrow> fs' = fs \<and> s' = s)
     \<and> (\<forall>e. res = Inl e \<longrightarrow> \<not> b \<and> fs' = fs \<and> s' = s)"
  proof (elim disjE conjE exE)
    assume r: "res = Inl TypeError" and f: "fs' = fs" and k: "s' = s"
    have "\<not> b" using b r by simp
    moreover have "\<not> ?removed" unfolding f by (metis option.distinct(1))
    moreover have "\<not> ?dropped" using k by simp
    ultimately show ?thesis using f k by blast
  next
    fix folderName deleted
    assume tp: "try_paths fs (pathsToTry cwd s fname lbl qual folderName) = (deleted, fs')"
      and s': "s' = filter (\<lambda>img. \<not> same_image fname lbl qual img) s"
      and res: "res = Inr (deleted \<or> (\<exists>img\<in>set s. same_image fname lbl qual img))"
    have bb: "b = (deleted \<or> (\<exists>img\<in>set s. same_image fname lbl qual img))"
      using b res by simp
    have rm: "?dropped \<longleftrightarrow> (\<exists>img\<in>set s. same_image fname lbl qual img)"
      unfolding s' by simp
    have keep: "\<not> (\<exists>img\<in>set s. same_image fname lbl qual img) \<Longrightarrow> s' = s"
      unfolding s' by (simp add: filter_id_conv)
    have nr: "fs' = fs \<Longrightarrow> \<not> ?removed" by (metis option.distinct(1))
    have del: "deleted \<longleftrightarrow> ?removed"
      using try_paths_cases [OF tp] nr by blast
    have same: "\<not> deleted \<Longrightarrow> fs' = fs"
      using try_paths_cases [OF tp] by blast
    have 1: "b \<longleftrightarrow> ?removed \<or> ?dropped" using bb rm del by simp
    have 2: "\<not> b \<longrightarrow> fs' = fs \<and> s' = s" using bb keep same by blast
    have 3: "\<forall>e. res = Inl e \<longrightarrow> \<not> b \<and> fs' = fs \<and> s' = s" using res by simp
    show ?thesis using 1 2 3 by blast
  qed
  have fst_body: "fst (deleteImage_body cwd fs s fname lbl qual) = res" by (simp add: body)
  show ?thesis unfolding fst_body by (rule main)
qed

theorem deleteImage_result_witness:
  "deleteImage app disk_1000 [circle_1000] ''circle_1000.png'' ''circle'' ''perfect''
     = (True, disk_emptied, [])
   \<and> lookup [''app'', ''public'', ''shapes'', ''circles'', ''perfect'', ''circle_1000.png''] disk_1000
       = Some (File 1000 ''AAAA'')
   \<and> lookup [''app'', ''public'', ''shapes'', ''circles'', ''perfect'', ''circle_1000.png''] disk_emptied
       = None
   \<and> deleteImage app disk_emptied [] ''circle_1000.png'' ''circle'' ''perfect''
     = (False, disk_emptied, [])
   \<and> fst (deleteImage_body app disk_1000 [circle_1000] ''circle_1000.png'' ''constructor'' ''perfect'')
       = Inl TypeError
   \<and> deleteImage app disk_1000 [circle_1000] ''circle_1000.png'' ''constructor'' ''perfect''
     = (False, disk_1000, [circle_1000])"
proof -
  have 1: "lookup [''app'', ''public'', ''shapes'', ''circles'', ''perfect'', ''circle_1000.png''] disk_1000
       = Some (File 1000 ''AAAA'')"
    by (simp add: disk_1000_def)
  have 2: "lookup [''app'', ''public'', ''shapes'', ''circles'', ''perfect'', ''circle_1000.png''] disk_emptied
       = None"
    by (simp add: disk_emptied_def)
  have 3: "fst (deleteImage_body app disk_1000 [circle_1000] ''circle_1000.png'' ''constructor'' ''perfect'')
       = Inl TypeError"
    by (simp add: delete_constructor_body)
  show ?thesis
    using deleteImage_result [OF delete_circle_1000] deleteImage_result [OF delete_again]
      deleteImage_result [OF delete_constructor]
      delete_circle_1000 delete_again delete_constructor 1 2 3
    by blast
qed

subsection \<open>C3: \<^verbatim>\<open>deleteImage\<close> with an empty quality\<close>

text \<open>
  C3 says that \<^verbatim>\<open>deleteImage\<close> with an empty quality behaves as with the quality
  \<^verbatim>\<open>perfect\<close>. The lookup in the store and the filter of the store normalise the quality,
  but the candidate path of line 262 is built from the quality as given: with the empty
  string \<^verbatim>\<open>path.join\<close> drops the segment, and the second candidate is the flat path
  again. With an image in \<^verbatim>\<open>circles/perfect\<close> that the store does not hold, the call with
  the empty quality finds nothing and returns false, and the call with \<^verbatim>\<open>perfect\<close> removes
  the file and returns true.
\<close>

theorem deleteImage_empty_quality_differs:
  "deleteImage app disk_1000 [] ''circle_1000.png'' ''circle'' '''' = (False, disk_1000, [])
   \<and> deleteImage app disk_1000 [] ''circle_1000.png'' ''circle'' ''perfect''
       = (True, disk_emptied, [])
   \<and> pathsToTry app [] ''circle_1000.png'' ''circle'' '''' ''circles'' =
       [[''app'', ''public'', ''shapes'', ''circles'', ''circle_1000.png''],
        [''app'', ''public'', ''shapes'', ''circles'', ''circle_1000.png'']]
   \<and> pathsToTry app [] ''circle_1000.png'' ''circle'' ''perfect'' ''circles'' =
       [[''app'', ''public'', ''shapes'', ''circles'', ''perfect'', ''circle_1000.png''],
        [''app'', ''public'', ''shapes'', ''circles'', ''circle_1000.png'']]"
  by (simp add: delete_eval path_eval disk_1000_def disk_emptied_def)

subsection \<open>C4: the candidate paths of \<^verbatim>\<open>deleteImage\<close>\<close>

text \<open>
  C4 says that \<^verbatim>\<open>deleteImage\<close> tries the stored path, then the path in the quality
  subdirectory of the folder of the label, then the flat path in that folder, and removes
  the first that exists. \<^verbatim>\<open>getFolderName\<close> looks the label up in an object literal and falls
  back to the label itself, so that for a label outside the table, such as \<^verbatim>\<open>hexagon\<close>, the
  folder is the label and the file in its quality subdirectory is removed. For a label that
  names a property of \<^verbatim>\<open>Object.prototype\<close>, such as \<^verbatim>\<open>toString\<close>, the lookup gives the
  inherited property, which is no string: \<^verbatim>\<open>path.join\<close> throws before any candidate is
  tried, and the call returns false with the tree unchanged, although the file is at the
  path \<^verbatim>\<open><cwd>/public/shapes/toString/perfect/x.png\<close> and \<^verbatim>\<open>unlinkSync\<close> would remove it.
\<close>

theorem deleteImage_prototype_label:
  "getFolderName ''toString'' = JObject
   \<and> lookup [''app'', ''public'', ''shapes'', ''toString'', ''perfect'', ''x.png''] proto_disk
       = Some (File 1 ''AAAA'')
   \<and> unlinkSync proto_disk [''app'', ''public'', ''shapes'', ''toString'', ''perfect'', ''x.png'']
       = Inr proto_disk_unlinked
   \<and> deleteImage app proto_disk [] ''x.png'' ''toString'' ''perfect'' = (False, proto_disk, [])
   \<and> getFolderName ''hexagon'' = JString ''hexagon''
   \<and> pathsToTry app [] ''x.png'' ''hexagon'' ''perfect'' ''hexagon'' =
       [[''app'', ''public'', ''shapes'', ''hexagon'', ''perfect'', ''x.png''],
        [''app'', ''public'', ''shapes'', ''hexagon'', ''x.png'']]
   \<and> deleteImage app proto_disk [] ''x.png'' ''hexagon'' ''perfect''
       = (True, proto_disk_deleted, [])"
  by (simp add: delete_eval path_eval proto_disk_def proto_disk_unlinked_def
      proto_disk_deleted_def)

subsection \<open>C5: \<^verbatim>\<open>addImage\<close> rejects an invalid label or quality\<close>

text \<open>
  C5. Called with a label outside circle, square, triangle, or with a quality outside
  perfect, medium, irregular, \<^verbatim>\<open>addImage\<close> throws an error whose message names the invalid
  value and the allowed set (the label is checked first); the directory tree and the array
  are as they were.
\<close>

theorem addImage_rejects_invalid:
  "lbl \<notin> set validLabels \<or> qual \<notin> set validQualities \<Longrightarrow>
   addImage now cwd fs s lbl qual img =
     (Inl (Error (if lbl \<notin> set validLabels
                  then ''Invalid label: '' @ lbl @ ''. Must be one of: circle, square, triangle''
                  else ''Invalid quality: '' @ qual @ ''. Must be one of: perfect, medium, irregular'')),
      fs, s)"
  by (auto simp: addImage_def Let_def validLabels_def validQualities_def)

theorem addImage_rejects_invalid_witness:
  "''hexagon'' \<notin> set validLabels \<and> ''rough'' \<notin> set validQualities
   \<and> addImage 1000 app disk_1000 [circle_1000] ''hexagon'' ''perfect'' png
     = (Inl (Error ''Invalid label: hexagon. Must be one of: circle, square, triangle''),
        disk_1000, [circle_1000])
   \<and> addImage 1000 app disk_1000 [circle_1000] ''circle'' ''rough'' png
     = (Inl (Error ''Invalid quality: rough. Must be one of: perfect, medium, irregular''),
        disk_1000, [circle_1000])"
proof -
  have l: "''hexagon'' \<notin> set validLabels" by (simp add: validLabels_def)
  have q: "''rough'' \<notin> set validQualities" by (simp add: validQualities_def)
  have c: "''circle'' \<in> set validLabels" by (simp add: validLabels_def)
  show ?thesis
    using l q c
      addImage_rejects_invalid [of "''hexagon''" "''perfect''" 1000 app disk_1000 "[circle_1000]" png]
      addImage_rejects_invalid [of "''circle''" "''rough''" 1000 app disk_1000 "[circle_1000]" png]
    by simp
qed

subsection \<open>C6: \<^verbatim>\<open>getAllImages\<close>\<close>

text \<open>
  C6. \<^verbatim>\<open>getAllImages\<close> returns every record of the array, ordered by descending timestamp,
  and strictly so when the timestamps differ; when the array is in strictly increasing
  order of timestamps, as after calls of \<^verbatim>\<open>addImage\<close> at strictly increasing clock values
  (each pushes a record with the clock value as its timestamp), the result is the array
  reversed. The array returned is a new one: it is not the store's array, the store's
  array is as it was, and writing to the returned array does not change the store's.
\<close>

theorem getAllImages_sorted_copy:
  "mset (getAllImages s) = mset s
   \<and> sorted_wrt (\<lambda>a b. timestamp b \<le> timestamp a) (getAllImages s)
   \<and> (distinct (map timestamp s) \<longrightarrow>
        sorted_wrt (\<lambda>a b. timestamp b < timestamp a) (getAllImages s))
   \<and> (sorted_wrt (\<lambda>a b. timestamp a < timestamp b) s \<longrightarrow> getAllImages s = rev s)
   \<and> (addImage now cwd fs s lbl qual img = (Inr r, fs', s') \<longrightarrow> s' = s @ [r] \<and> timestamp r = Finite (of_int now))
   \<and> (a < length h \<longrightarrow>
        fst (getAllImages_ref a h) \<noteq> a
        \<and> snd (getAllImages_ref a h) ! fst (getAllImages_ref a h) = getAllImages (h ! a)
        \<and> snd (getAllImages_ref a h) ! a = h ! a
        \<and> (\<forall>xs. (snd (getAllImages_ref a h)) [fst (getAllImages_ref a h) := xs] ! a = h ! a))"
proof -
  have add: "addImage now cwd fs s lbl qual img = (Inr r, fs', s') \<longrightarrow> s' = s @ [r] \<and> timestamp r = Finite (of_int now)"
    by (auto simp: addImage_def Let_def split: if_splits js_value.splits sum.splits)
  have ref: "a < length h \<longrightarrow>
        fst (getAllImages_ref a h) \<noteq> a
        \<and> snd (getAllImages_ref a h) ! fst (getAllImages_ref a h) = getAllImages (h ! a)
        \<and> snd (getAllImages_ref a h) ! a = h ! a
        \<and> (\<forall>xs. (snd (getAllImages_ref a h)) [fst (getAllImages_ref a h) := xs] ! a = h ! a)"
    using getAllImages_ref_fresh [of a h "fst (getAllImages_ref a h)" "snd (getAllImages_ref a h)"]
    by simp
  show ?thesis
    using getAllImages_mset [of s] getAllImages_desc [of s] getAllImages_strict [of s]
      getAllImages_rev [of s] add ref
    by blast
qed

theorem getAllImages_sorted_copy_witness:
  "addImage 2000 app disk_1000 [circle_1000] ''circle'' ''perfect'' png
     = (Inr circle_2000, disk_2000, [circle_1000, circle_2000])
   \<and> distinct (map timestamp [circle_1000, circle_2000])
   \<and> sorted_wrt (\<lambda>a b. timestamp a < timestamp b) [circle_1000, circle_2000]
   \<and> getAllImages [circle_1000, circle_2000] = [circle_2000, circle_1000]
   \<and> sorted_wrt (\<lambda>a b. timestamp b < timestamp a) (getAllImages [circle_1000, circle_2000])
   \<and> (0::nat) < length [[circle_1000, circle_2000]]
   \<and> getAllImages_ref 0 [[circle_1000, circle_2000]]
       = (1, [[circle_1000, circle_2000], [circle_2000, circle_1000]])"
proof -
  have d: "distinct (map timestamp [circle_1000, circle_2000])"
    by (simp add: circle_1000_def circle_2000_def)
  have i: "sorted_wrt (\<lambda>a b. timestamp a < timestamp b) [circle_1000, circle_2000]"
    by (simp add: circle_1000_def circle_2000_def Finite_less_iff)
  have l: "(0::nat) < length [[circle_1000, circle_2000]]" by simp
  have g: "getAllImages [circle_1000, circle_2000] = [circle_2000, circle_1000]"
    using getAllImages_sorted_copy [of "[circle_1000, circle_2000]"] i by simp
  have r: "getAllImages_ref 0 [[circle_1000, circle_2000]]
       = (1, [[circle_1000, circle_2000], [circle_2000, circle_1000]])"
    using g by (simp add: getAllImages_ref_def spread_def sort_in_place_def getAllImages_def)
  have s: "sorted_wrt (\<lambda>a b. timestamp b < timestamp a) (getAllImages [circle_1000, circle_2000])"
    using getAllImages_sorted_copy [of "[circle_1000, circle_2000]"] d by blast
  show ?thesis using addImage_circle_2000 d i l g r s by blast
qed

subsection \<open>C7: one record per image on disk\<close>

text \<open>
  C7 says that the scan of a populated tree produces exactly one record per image file on
  disk. The scan compares file name, label and quality: an image that lies flat in a
  label folder and has the name of an image of the \<^verbatim>\<open>perfect\<close> subdirectory is taken for
  the record already pushed, and gets none of its own. Here three image files give two
  records.
\<close>

theorem scan_twin_files_counterexample:
  "image_files app twin_disk =
     [[''app'', ''public'', ''shapes'', ''circles'', ''perfect'', ''a_1.png''],
      [''app'', ''public'', ''shapes'', ''circles'', ''a_1.png''],
      [''app'', ''public'', ''shapes'', ''circles'', ''b.JPG'']]
   \<and> loadImagesFromFilesystem app twin_disk [] = [scanned_a, scanned_b]
   \<and> length (loadImagesFromFilesystem app twin_disk []) \<noteq> length (image_files app twin_disk)"
proof -
  have f: "image_files app twin_disk =
     [[''app'', ''public'', ''shapes'', ''circles'', ''perfect'', ''a_1.png''],
      [''app'', ''public'', ''shapes'', ''circles'', ''a_1.png''],
      [''app'', ''public'', ''shapes'', ''circles'', ''b.JPG'']]"
    by (simp add: image_files_def path_eval twin_disk_def getFolderName_def validLabels_def
        validQualities_def has_image_ext_def strip_image_ext_def ends_with_def to_lower_def)
  have l: "loadImagesFromFilesystem app twin_disk [] = [scanned_a, scanned_b]"
    by (simp add: loadImagesFromFilesystem_def scan_body_twin_disk)
  show ?thesis unfolding f l by simp
qed

text \<open>
  C7, amended. On any tree and any array, the scan keeps the records it finds, in place;
  the records it pushes have pairwise distinct triples of file name, label and quality,
  none of which the array held; and running it again changes nothing. A scan that meets no
  exception, run from the empty array on a well-named tree, leaves records with pairwise
  distinct triples, among them the triple of every image file on disk (a regular file with
  an image extension in a quality subdirectory has the quality of the subdirectory, one
  lying flat in the label folder has the quality \<^verbatim>\<open>perfect\<close>); when every entry with an
  image extension in the quality subdirectories is a regular file, the triples of the
  records are exactly the triples of the image files on disk.
\<close>

theorem scan_once_per_triple:
  "loadImagesFromFilesystem cwd fs (loadImagesFromFilesystem cwd fs s)
     = loadImagesFromFilesystem cwd fs s
   \<and> prefix s (loadImagesFromFilesystem cwd fs s)
   \<and> (\<exists>added. loadImagesFromFilesystem cwd fs s = s @ added
        \<and> distinct (map triple_of added)
        \<and> (\<forall>r\<in>set added. triple_of r \<notin> triple_of ` set s))
   \<and> (distinct (map triple_of s) \<longrightarrow>
        distinct (map triple_of (loadImagesFromFilesystem cwd fs s)))
   \<and> (well_named fs \<and> scan_body cwd fs [] = (None, s') \<longrightarrow>
        distinct (map triple_of s')
        \<and> on_disk cwd fs \<subseteq> triple_of ` set s'
        \<and> (quality_entries_regular cwd fs \<longrightarrow> triple_of ` set s' = on_disk cwd fs))"
proof -
  have 3: "\<exists>added. loadImagesFromFilesystem cwd fs s = s @ added
        \<and> distinct (map triple_of added)
        \<and> (\<forall>r\<in>set added. triple_of r \<notin> triple_of ` set s)"
    using load_fresh [of cwd fs s] by (simp add: triples_def)
  have 5: "distinct (map triple_of s') \<and> on_disk cwd fs \<subseteq> triple_of ` set s'
        \<and> (quality_entries_regular cwd fs \<longrightarrow> triple_of ` set s' = on_disk cwd fs)"
    if w: "well_named fs" and b: "scan_body cwd fs [] = (None, s')"
  proof -
    have "distinct (map triple_of (loadImagesFromFilesystem cwd fs []))"
      by (rule load_distinct) simp
    then have d: "distinct (map triple_of s')" using b by (simp add: loadImagesFromFilesystem_def)
    have "triples [] \<union> on_disk cwd fs \<subseteq> triples s'" using b w by (rule scan_body_files)
    then have f: "on_disk cwd fs \<subseteq> triple_of ` set s'" by (simp add: triples_def)
    have e: "triple_of ` set s' = on_disk cwd fs" if r: "quality_entries_regular cwd fs"
    proof -
      have "triples s' = triples [] \<union> on_disk cwd fs" using b w r by (rule scan_body_triples)
      then show ?thesis by (simp add: triples_def)
    qed
    show ?thesis using d f e by blast
  qed
  show ?thesis
    using load_idem [of cwd fs s] load_prefix [of s cwd fs] 3 load_distinct [of s cwd fs] 5
    by blast
qed

theorem scan_once_per_triple_witness:
  "well_named twin_disk
   \<and> quality_entries_regular app twin_disk
   \<and> scan_body app twin_disk [] = (None, [scanned_a, scanned_b])
   \<and> on_disk app twin_disk = {(''a_1.png'', ''circle'', ''perfect''), (''b.JPG'', ''circle'', ''perfect'')}
   \<and> distinct (map triple_of [scanned_a, scanned_b])
   \<and> loadImagesFromFilesystem app twin_disk [scanned_a, scanned_b] = [scanned_a, scanned_b]
   \<and> loadImagesFromFilesystem app twin_disk [scanned_a] = [scanned_a, scanned_b]"
proof -
  note t = scan_once_per_triple [of app twin_disk "[]" "[scanned_a, scanned_b]"]
  have a: "loadImagesFromFilesystem app twin_disk [scanned_a] = [scanned_a, scanned_b]"
    by (simp add: scan_eval path_eval twin_disk_def scanned_a_def scanned_b_def)
  have l: "loadImagesFromFilesystem app twin_disk [] = [scanned_a, scanned_b]"
    by (simp add: loadImagesFromFilesystem_def scan_body_twin_disk)
  have i: "loadImagesFromFilesystem app twin_disk [scanned_a, scanned_b] = [scanned_a, scanned_b]"
    using t unfolding l by blast
  have "triple_of ` set [scanned_a, scanned_b] = on_disk app twin_disk"
    using t well_named_twin_disk regular_twin_disk scan_body_twin_disk by blast
  then have o: "on_disk app twin_disk
      = {(''a_1.png'', ''circle'', ''perfect''), (''b.JPG'', ''circle'', ''perfect'')}"
    by (simp add: triple_of_def scanned_a_def scanned_b_def)
  have d: "distinct (map triple_of [scanned_a, scanned_b])"
    using t well_named_twin_disk scan_body_twin_disk by blast
  show ?thesis using well_named_twin_disk regular_twin_disk scan_body_twin_disk o d i a by blast
qed

subsection \<open>C8: the scan does not fail\<close>

text \<open>
  C8. When \<^verbatim>\<open><cwd>/public/shapes\<close> does not exist, the scan changes nothing and raises no
  error (an empty array stays empty). Whatever exception the body of the scan meets, the
  scan itself returns: it leaves the array as it was when the exception was thrown, which
  is the array it started with followed by the records pushed until then.
\<close>

theorem scan_failure_handling:
  "(\<not> existsSync fs (path_join cwd [''public'', ''shapes'']) \<longrightarrow>
      scan_body cwd fs s = (None, s) \<and> loadImagesFromFilesystem cwd fs s = s)
   \<and> (\<forall>e s'. scan_body cwd fs s = (e, s') \<longrightarrow>
        loadImagesFromFilesystem cwd fs s = s' \<and> prefix s s')"
proof -
  have "prefix s (snd (scan_body cwd fs s))"
    using load_prefix [of s cwd fs] by (simp add: loadImagesFromFilesystem_def)
  then show ?thesis
    by (auto simp: loadImagesFromFilesystem_def scan_body_def Let_def)
qed

theorem scan_failure_handling_witness:
  "\<not> existsSync empty_disk (path_join app [''public'', ''shapes''])
   \<and> loadImagesFromFilesystem app empty_disk [] = []
   \<and> scan_body app broken_disk [] = (Some ENOTDIR, [scanned_1000])
   \<and> loadImagesFromFilesystem app broken_disk [] = [scanned_1000]"
proof -
  have n: "\<not> existsSync empty_disk (path_join app [''public'', ''shapes''])"
    by (simp add: path_eval)
  show ?thesis
    using n scan_body_broken_disk
      scan_failure_handling [of empty_disk app "[]"]
      scan_failure_handling [of broken_disk app "[]"]
    by simp
qed

subsection \<open>C9: the filters\<close>

text \<open>
  C9. \<^verbatim>\<open>getImagesByLabel\<close>, \<^verbatim>\<open>getImagesByQuality\<close> and \<^verbatim>\<open>getImagesByLabelAndQuality\<close> return
  exactly the records of the array that satisfy the equality (each as often as the array
  holds it), in the order of the array. They accept any argument, and for a label or a
  quality outside the known sets they return no record in every reachable state.
\<close>

theorem query_filters:
  "mset (getImagesByLabel s lbl) = filter_mset (\<lambda>img. label img = lbl) (mset s)
   \<and> subseq (getImagesByLabel s lbl) s
   \<and> mset (getImagesByQuality s qual) = filter_mset (\<lambda>img. quality img = qual) (mset s)
   \<and> subseq (getImagesByQuality s qual) s
   \<and> mset (getImagesByLabelAndQuality s lbl qual)
       = filter_mset (\<lambda>img. label img = lbl \<and> quality img = qual) (mset s)
   \<and> subseq (getImagesByLabelAndQuality s lbl qual) s
   \<and> (reachable s \<and> lbl \<notin> set validLabels \<longrightarrow>
        getImagesByLabel s lbl = [] \<and> getImagesByLabelAndQuality s lbl qual = [])
   \<and> (reachable s \<and> qual \<notin> set validQualities \<longrightarrow>
        getImagesByQuality s qual = [] \<and> getImagesByLabelAndQuality s lbl qual = [])"
proof -
  have v: "reachable s \<Longrightarrow> img \<in> set s \<Longrightarrow> valid_record img" for img
    using reachable_store_valid [of s] by (simp add: store_valid_def list_all_iff)
  have a: "reachable s \<and> lbl \<notin> set validLabels \<longrightarrow>
        getImagesByLabel s lbl = [] \<and> getImagesByLabelAndQuality s lbl qual = []"
    using v by (auto simp: getImagesByLabel_def getImagesByLabelAndQuality_def filter_empty_conv
        valid_record_def)
  have b: "reachable s \<and> qual \<notin> set validQualities \<longrightarrow>
        getImagesByQuality s qual = [] \<and> getImagesByLabelAndQuality s lbl qual = []"
    using v by (auto simp: getImagesByQuality_def getImagesByLabelAndQuality_def filter_empty_conv
        valid_record_def)
  show ?thesis using a b
    by (simp add: getImagesByLabel_def getImagesByQuality_def getImagesByLabelAndQuality_def)
qed

theorem query_filters_witness:
  "reachable [circle_1000] \<and> ''hexagon'' \<notin> set validLabels \<and> ''rough'' \<notin> set validQualities
   \<and> getImagesByLabel [circle_1000] ''hexagon'' = []
   \<and> getImagesByQuality [circle_1000] ''rough'' = []
   \<and> getImagesByLabelAndQuality [circle_1000] ''hexagon'' ''perfect'' = []
   \<and> getImagesByLabelAndQuality [circle_1000] ''circle'' ''rough'' = []
   \<and> getImagesByLabel [circle_1000] ''circle'' = [circle_1000]"
proof -
  have l: "''hexagon'' \<notin> set validLabels" by (simp add: validLabels_def)
  have q: "''rough'' \<notin> set validQualities" by (simp add: validQualities_def)
  have c: "getImagesByLabel [circle_1000] ''circle'' = [circle_1000]"
    by (simp add: getImagesByLabel_def circle_1000_def)
  show ?thesis
    using reachable_circle_1000 l q c
      query_filters [of "[circle_1000]" "''hexagon''" "''perfect''"]
      query_filters [of "[circle_1000]" "''circle''" "''rough''"]
    by simp
qed

subsection \<open>C10: labels and qualities of the records\<close>

text \<open>
  C10. In every state of the array reachable from the empty array by the scan, \<^verbatim>\<open>addImage\<close>
  and \<^verbatim>\<open>deleteImage\<close>, the label of every record is one of circle, square and triangle,
  and its quality is one of perfect, medium and irregular.
\<close>

theorem reachable_labels_qualities:
  "reachable s \<Longrightarrow> img \<in> set s \<Longrightarrow>
     label img \<in> set validLabels \<and> quality img \<in> set validQualities"
  using reachable_store_valid [of s] by (simp add: store_valid_def list_all_iff valid_record_def)

theorem reachable_labels_qualities_witness:
  "reachable [circle_1000] \<and> circle_1000 \<in> set [circle_1000]
   \<and> label circle_1000 \<in> set validLabels \<and> quality circle_1000 \<in> set validQualities"
proof -
  have m: "circle_1000 \<in> set [circle_1000]" by simp
  show ?thesis
    using reachable_circle_1000 m reachable_labels_qualities [OF reachable_circle_1000 m] by simp
qed

end
